theory Spec2Isabelle
  imports Complex_Main "HOL-Library.Log_Nat" "HOL-Library.Sublist"
begin

section \<open>JavaScript numbers\<close>

text \<open>
  The library computes with JavaScript numbers, that is IEEE 754 binary64 values. A finite
  double is modelled by the real number it denotes; every arithmetic operation computes
  the exact real result and rounds it to the nearest double, ties to even (\<open>binary64\<close>).
  The significand has 53 bits; the exponent range is not bounded, so overflow to
  \<open>Infinity\<close> and gradual underflow are not modelled (the model agrees with the
  machine for magnitudes between \<open>2^-1022\<close> and \<open>2^1024\<close>), and the two signed
  zeros are one value. The values that are not finite appear where the code can produce
  them, by a division by zero: \<open>number\<close> adds \<open>Infinity\<close>, \<open>-Infinity\<close> and \<open>NaN\<close>.
\<close>

definition round_half_even :: "real \<Rightarrow> int" where
  "round_half_even x =
     (let f = \<lfloor>x\<rfloor>; d = x - of_int f
      in if d < 1 / 2 then f else if 1 / 2 < d then f + 1 else if even f then f else f + 1)"

definition expo :: "real \<Rightarrow> int" where
  \<comment> \<open>the binary exponent \<open>e\<close> of a nonzero \<open>x\<close>, with \<open>2^e \<le> |x| < 2^(e+1)\<close>, from the number
      of bits of the integer part of \<open>|x|\<close> or of \<open>1 / |x|\<close>\<close>
  "expo x =
     (if 1 \<le> \<bar>x\<bar> then int (floorlog 2 (nat \<lfloor>\<bar>x\<bar>\<rfloor>)) - 1
      else - int (floorlog 2 (nat (\<lceil>1 / \<bar>x\<bar>\<rceil> - 1))))"

definition binary64 :: "real \<Rightarrow> real" where
  \<comment> \<open>round to 53 significant bits, to nearest, ties to even\<close>
  "binary64 x =
     (if x = 0 then 0
      else of_int (round_half_even (x * 2 powi (52 - expo x))) * 2 powi (expo x - 52))"

definition add64 :: "real \<Rightarrow> real \<Rightarrow> real" where
  "add64 x y = binary64 (x + y)"

definition sub64 :: "real \<Rightarrow> real \<Rightarrow> real" where
  "sub64 x y = binary64 (x - y)"

definition mul64 :: "real \<Rightarrow> real \<Rightarrow> real" where
  "mul64 x y = binary64 (x * y)"

definition div64 :: "real \<Rightarrow> real \<Rightarrow> real" where
  \<comment> \<open>division by a divisor that is not zero\<close>
  "div64 x y = binary64 (x / y)"

definition unit_roundoff :: real where
  \<comment> \<open>the largest relative error of one rounding\<close>
  "unit_roundoff = 1 / 2 ^ 53"

datatype number = Num real | PosInf | NegInf | NaN

text \<open>The comparisons \<open><=\<close>, \<open><\<close> and \<open>>=\<close>: every comparison with \<open>NaN\<close> is false.\<close>

fun js_le :: "number \<Rightarrow> number \<Rightarrow> bool" where
  "js_le NaN b = False"
| "js_le a NaN = False"
| "js_le NegInf b = True"
| "js_le a PosInf = True"
| "js_le (Num x) (Num y) = (x \<le> y)"
| "js_le PosInf b = False"
| "js_le a NegInf = False"

fun js_lt :: "number \<Rightarrow> number \<Rightarrow> bool" where
  "js_lt NaN b = False"
| "js_lt a NaN = False"
| "js_lt PosInf b = False"
| "js_lt a NegInf = False"
| "js_lt (Num x) (Num y) = (x < y)"
| "js_lt NegInf b = True"
| "js_lt a PosInf = True"

definition js_ge :: "number \<Rightarrow> number \<Rightarrow> bool" where
  "js_ge a b = js_le b a"

fun js_add :: "number \<Rightarrow> number \<Rightarrow> number" where
  "js_add NaN b = NaN"
| "js_add a NaN = NaN"
| "js_add (Num x) (Num y) = Num (add64 x y)"
| "js_add PosInf NegInf = NaN"
| "js_add NegInf PosInf = NaN"
| "js_add PosInf b = PosInf"
| "js_add NegInf b = NegInf"
| "js_add a b = b"

text \<open>
  Multiplication and division of numbers. A product or quotient of finite values is
  rounded; division by zero gives \<open>NaN\<close> for \<open>0 / 0\<close> and an infinity otherwise.
\<close>

fun js_mul :: "number \<Rightarrow> number \<Rightarrow> number" where
  "js_mul NaN b = NaN"
| "js_mul a NaN = NaN"
| "js_mul (Num x) (Num y) = Num (mul64 x y)"
| "js_mul (Num x) PosInf = (if x = 0 then NaN else if 0 < x then PosInf else NegInf)"
| "js_mul (Num x) NegInf = (if x = 0 then NaN else if 0 < x then NegInf else PosInf)"
| "js_mul PosInf (Num y) = (if y = 0 then NaN else if 0 < y then PosInf else NegInf)"
| "js_mul NegInf (Num y) = (if y = 0 then NaN else if 0 < y then NegInf else PosInf)"
| "js_mul PosInf PosInf = PosInf"
| "js_mul PosInf NegInf = NegInf"
| "js_mul NegInf PosInf = NegInf"
| "js_mul NegInf NegInf = PosInf"

fun js_div :: "number \<Rightarrow> number \<Rightarrow> number" where
  "js_div NaN b = NaN"
| "js_div a NaN = NaN"
| "js_div (Num x) (Num y) =
     (if y = 0 then (if x = 0 then NaN else if 0 < x then PosInf else NegInf)
      else Num (binary64 (x / y)))"
| "js_div (Num x) PosInf = Num 0"
| "js_div (Num x) NegInf = Num 0"
| "js_div PosInf (Num y) = (if 0 \<le> y then PosInf else NegInf)"
| "js_div NegInf (Num y) = (if 0 \<le> y then NegInf else PosInf)"
| "js_div PosInf b = NaN"
| "js_div NegInf b = NaN"

fun Math_round :: "number \<Rightarrow> number" where
  \<comment> \<open>\<open>Math.round\<close>: the nearest integer, a tie going up\<close>
  "Math_round (Num x) = Num (of_int \<lfloor>x + 1 / 2\<rfloor>)"
| "Math_round a = a"

section \<open>Types\<close>

text \<open>
  The result of \<open>testLatency\<close>; \<open>minimum\<close> and \<open>maximum\<close> are its fields \<open>min\<close> and
  \<open>max\<close>. Its numbers are finite, and so are those of \<open>quickCheck\<close>.
\<close>

record LatencyStats =
  avg :: real
  jitter :: real
  minimum :: real
  maximum :: real

record QuickCheck =
  isOnline :: bool
  latency :: real

record SpeedTestResult =
  downloadSpeed :: number
  uploadSpeed :: number
  latency :: number
  jitter :: number
  timestamp :: number

datatype quality_tier = excellent | good | fair | poor | very_poor

record NetworkQuality =
  quality :: quality_tier
  downloadSpeed :: number
  uploadSpeed :: number
  latency :: number
  recommendation :: string

text \<open>
  An options object maps property names to values: the caller's may lack any of the four
  recognised keys and may carry others. The tester keeps the merged object. The values
  are finite numbers (a property that is present with the value \<open>undefined\<close> is not
  modelled).
\<close>

type_synonym SpeedTestOptions = "string \<rightharpoonup> real"

record NetworkTester =
  options :: SpeedTestOptions
  isBrowser :: bool

datatype error = Error string | RangeError

section \<open>Constants\<close>

definition DEFAULT_OPTIONS :: SpeedTestOptions where
  "DEFAULT_OPTIONS =
     [''downloadTestDuration'' \<mapsto> 5,
      ''uploadTestDuration'' \<mapsto> 5,
      ''latencyTestCount'' \<mapsto> 5,
      ''testFileSize'' \<mapsto> 1024 * 100]"

record threshold =
  download :: number
  upload :: number
  latency :: number

definition QUALITY_THRESHOLDS :: "quality_tier \<Rightarrow> threshold" where
  \<comment> \<open>the table has no entry for \<open>very-poor\<close>, and the code never reads one\<close>
  "QUALITY_THRESHOLDS q =
     (case q of
        excellent \<Rightarrow> \<lparr>download = Num 50, upload = Num 10, latency = Num 30\<rparr>
      | good \<Rightarrow> \<lparr>download = Num 25, upload = Num 5, latency = Num 50\<rparr>
      | fair \<Rightarrow> \<lparr>download = Num 10, upload = Num 2, latency = Num 100\<rparr>
      | _ \<Rightarrow> \<lparr>download = Num 5, upload = Num 1, latency = Num 200\<rparr>)"

section \<open>The environment: clock and transport\<close>

text \<open>
  The tester reads a clock (\<open>performance.now()\<close>) and sends requests (\<open>fetch\<close>, and
  \<open>https.request\<close> under Node). Both belong to the host; the model takes them as given:
  \<open>clock w n\<close> is the value of the \<open>n\<close>-th reading and \<open>net w n\<close> the outcome of the
  \<open>n\<close>-th request. The world counts the readings taken and records the URLs requested.

  A request either fails (the promise rejects) or yields a response. A response body is
  the sequence of results of \<open>reader.read()\<close>: chunks of some length, perhaps ending in a
  read that rejects; after the last element the reader reports \<open>done\<close>. \<open>None\<close> is a
  response whose \<open>body\<close> is \<open>null\<close>.
\<close>

datatype chunk = Chunk nat | ReadError

datatype response = NetworkError | Response "chunk list option"

record world =
  clock :: "nat \<Rightarrow> real"
  ticks :: nat
  net :: "nat \<Rightarrow> response"
  sent :: "string list"

definition now :: "world \<Rightarrow> real \<times> world" where
  "now w = (clock w (ticks w), w\<lparr>ticks := Suc (ticks w)\<rparr>)"

definition fetch :: "string \<Rightarrow> world \<Rightarrow> response \<times> world" where
  "fetch url w = (net w (length (sent w)), w\<lparr>sent := sent w @ [url]\<rparr>)"

definition https_request :: "string \<Rightarrow> world \<Rightarrow> response \<times> world" where
  \<comment> \<open>the promise around \<open>https.request\<close>: resolved by the response, rejected by \<open>error\<close>\<close>
  "https_request url w = (net w (length (sent w)), w\<lparr>sent := sent w @ [url]\<rparr>)"

fun arrayBuffer :: "chunk list option \<Rightarrow> nat option" where
  \<comment> \<open>\<open>byteLength\<close> of the whole body; \<open>None\<close> when reading the body fails\<close>
  "arrayBuffer None = Some 0"
| "arrayBuffer (Some []) = Some 0"
| "arrayBuffer (Some (ReadError # cs)) = None"
| "arrayBuffer (Some (Chunk n # cs)) =
     (case arrayBuffer (Some cs) of None \<Rightarrow> None | Some m \<Rightarrow> Some (n + m))"

fun Uint8Array_length :: "number \<Rightarrow> error + nat" where
  \<comment> \<open>\<open>new Uint8Array(n).length\<close>: \<open>n\<close> is truncated; a negative or too large length throws\<close>
  "Uint8Array_length NaN = Inr 0"
| "Uint8Array_length (Num x) =
     (let k = (if 0 \<le> x then \<lfloor>x\<rfloor> else \<lceil>x\<rceil>)
      in if k < 0 \<or> 2 ^ 53 - 1 < k then Inl RangeError else Inr (nat k))"
| "Uint8Array_length a = Inl RangeError"

section \<open>NetworkTester\<close>

subsection \<open>analyzeQuality\<close>

definition analyzeQuality :: "SpeedTestResult \<Rightarrow> NetworkQuality" where
  "analyzeQuality result =
     (let (quality, recommendation) =
        (if js_ge (SpeedTestResult.downloadSpeed result) (download (QUALITY_THRESHOLDS excellent)) \<and>
            js_ge (SpeedTestResult.uploadSpeed result) (upload (QUALITY_THRESHOLDS excellent)) \<and>
            js_le (SpeedTestResult.latency result) (threshold.latency (QUALITY_THRESHOLDS excellent))
         then (excellent, ''Perfect for 4K streaming, gaming, and large file transfers.'')
         else if js_ge (SpeedTestResult.downloadSpeed result) (download (QUALITY_THRESHOLDS good)) \<and>
            js_ge (SpeedTestResult.uploadSpeed result) (upload (QUALITY_THRESHOLDS good)) \<and>
            js_le (SpeedTestResult.latency result) (threshold.latency (QUALITY_THRESHOLDS good))
         then (good, ''Suitable for HD streaming, video calls, and online gaming.'')
         else if js_ge (SpeedTestResult.downloadSpeed result) (download (QUALITY_THRESHOLDS fair)) \<and>
            js_ge (SpeedTestResult.uploadSpeed result) (upload (QUALITY_THRESHOLDS fair)) \<and>
            js_le (SpeedTestResult.latency result) (threshold.latency (QUALITY_THRESHOLDS fair))
         then (fair, ''Good for browsing and SD streaming. May experience delays in video calls.'')
         else if js_ge (SpeedTestResult.downloadSpeed result) (download (QUALITY_THRESHOLDS poor)) \<and>
            js_ge (SpeedTestResult.uploadSpeed result) (upload (QUALITY_THRESHOLDS poor))
         then (poor, ''Basic browsing only. Video streaming and calls will be problematic.'')
         else (very_poor, ''Very slow connection. Consider switching networks or contacting your ISP.''))
      in \<lparr>quality = quality,
          downloadSpeed = SpeedTestResult.downloadSpeed result,
          uploadSpeed = SpeedTestResult.uploadSpeed result,
          latency = SpeedTestResult.latency result,
          recommendation = recommendation\<rparr>)"

subsection \<open>constructor\<close>

definition constructor :: "SpeedTestOptions \<Rightarrow> bool \<Rightarrow> NetworkTester" where
  \<comment> \<open>the second argument: whether \<open>window\<close> and \<open>document\<close> are defined\<close>
  "constructor opts browser = \<lparr>options = DEFAULT_OPTIONS ++ opts, isBrowser = browser\<rparr>"

definition option_value :: "NetworkTester \<Rightarrow> string \<Rightarrow> number" where
  \<comment> \<open>\<open>this.options.key\<close>; a missing property reads \<open>undefined\<close>, which every use below
      converts to \<open>NaN\<close>\<close>
  "option_value t key = (case options t key of Some v \<Rightarrow> Num v | None \<Rightarrow> NaN)"

subsection \<open>testLatency\<close>

definition latency_testUrls :: "string list" where
  "latency_testUrls =
     [''https://www.cloudflare.com/cdn-cgi/trace'',
      ''https://www.google.com/generate_204'',
      ''https://1.1.1.1/cdn-cgi/trace'']"

text \<open>The probe loop, from iteration \<open>i\<close> on; a probe that fails adds no sample.\<close>

lemma for_loop_step: "real i < c \<Longrightarrow> nat \<lceil>c\<rceil> - Suc i < nat \<lceil>c\<rceil> - i"
proof -
  assume "real i < c"
  then have "real_of_int (int i) < c" by simp
  then have "int i < \<lceil>c\<rceil>" by (simp only: less_ceiling_iff)
  then show ?thesis by linarith
qed

function latency_loop :: "NetworkTester \<Rightarrow> nat \<Rightarrow> real list \<Rightarrow> world \<Rightarrow> real list \<times> world" where
  "latency_loop t i latencies w =
     (if js_lt (Num (real i)) (option_value t ''latencyTestCount'') then
        (let url = latency_testUrls ! (i mod length latency_testUrls);
             (start, w1) = now w;
             (r, w2) = (if isBrowser t then fetch url w1 else https_request url w1)
         in case r of
              NetworkError \<Rightarrow> latency_loop t (Suc i) latencies w2
            | Response body \<Rightarrow>
                (let (fin, w3) = now w2
                 in latency_loop t (Suc i) (latencies @ [sub64 fin start]) w3))
      else (latencies, w))"
  by pat_completeness auto
termination
  by (relation "measure (\<lambda>(t, i, latencies, w).
        case options t ''latencyTestCount'' of Some c \<Rightarrow> nat \<lceil>c\<rceil> - i | None \<Rightarrow> 0)")
     (auto simp: option_value_def split: option.splits intro: for_loop_step)

text \<open>
  What \<open>testLatency\<close> does with the collected samples: it throws when there is none, and
  otherwise computes the statistics (\<open>Math.min\<close> and \<open>Math.max\<close> of a list that is not
  empty).
\<close>

definition latency_statistics :: "real list \<Rightarrow> error + LatencyStats" where
  "latency_statistics latencies =
     (case latencies of
        [] \<Rightarrow> Inl (Error ''All latency tests failed'')
      | l # ls \<Rightarrow>
          (let avg = div64 (foldl (\<lambda>a b. add64 a b) 0 latencies) (real (length latencies));
               min' = foldl min l ls;
               max' = foldl max l ls;
               jitter = div64 (foldl (\<lambda>sum lat. add64 sum \<bar>sub64 lat avg\<bar>) 0 latencies)
                          (real (length latencies))
           in Inr \<lparr>avg = avg, jitter = jitter, minimum = min', maximum = max'\<rparr>))"

definition testLatency :: "NetworkTester \<Rightarrow> world \<Rightarrow> (error + LatencyStats) \<times> world" where
  "testLatency t w = (let (latencies, w') = latency_loop t 0 [] w in (latency_statistics latencies, w'))"

subsection \<open>testDownloadSpeed\<close>

definition download_testUrls :: "string list" where
  "download_testUrls =
     [''https://speed.cloudflare.com/__down?bytes=10000000'',
      ''https://proof.ovh.net/files/10Mb.dat'']"

text \<open>
  Draining a body through its reader, up to the deadline. A read that rejects leaves the
  loop by the exception, which the \<open>catch\<close> around the request absorbs; the bytes counted
  so far stay counted.
\<close>

fun read_loop :: "number \<Rightarrow> chunk list \<Rightarrow> world \<Rightarrow> real \<Rightarrow> real \<times> world" where
  "read_loop endTime [] w totalBytes = (let (t, w1) = now w in (totalBytes, w1))"
| "read_loop endTime (ReadError # cs) w totalBytes = (let (t, w1) = now w in (totalBytes, w1))"
| "read_loop endTime (Chunk n # cs) w totalBytes =
     (let (t, w1) = now w
      in if js_lt (Num t) endTime then read_loop endTime cs w1 (add64 totalBytes (real n))
         else (totalBytes, w1))"

text \<open>The loop over the endpoints: a request that fails is skipped.\<close>

fun download_for :: "number \<Rightarrow> bool \<Rightarrow> string list \<Rightarrow> world \<Rightarrow> real \<Rightarrow> real \<times> world" where
  "download_for endTime browser [] w totalBytes = (totalBytes, w)"
| "download_for endTime browser (url # urls) w totalBytes =
     (let (t, w1) = now w
      in if js_ge (Num t) endTime then (totalBytes, w1)
         else
           (let (r, w2) = fetch url w1
            in case r of
                 NetworkError \<Rightarrow> download_for endTime browser urls w2 totalBytes
               | Response body \<Rightarrow>
                   if browser \<and> body \<noteq> None then
                     (let (totalBytes', w3) =
                            read_loop endTime (case body of Some cs \<Rightarrow> cs | None \<Rightarrow> []) w2 totalBytes
                      in download_for endTime browser urls w3 totalBytes')
                   else
                     (case arrayBuffer body of
                        None \<Rightarrow> download_for endTime browser urls w2 totalBytes
                      | Some n \<Rightarrow>
                          download_for endTime browser urls w2 (add64 totalBytes (real n)))))"

text \<open>
  The outer loop runs until a reading of the clock reaches the deadline; it has no other
  exit, so it returns nothing (\<open>None\<close>) when the clock never gets there.
\<close>

partial_function (option) download_while ::
  "number \<Rightarrow> bool \<Rightarrow> world \<Rightarrow> real \<Rightarrow> (real \<times> world) option" where
  "download_while endTime browser w totalBytes =
     (let (t, w1) = now w
      in if js_lt (Num t) endTime then
           (let (totalBytes', w2) = download_for endTime browser download_testUrls w1 totalBytes
            in download_while endTime browser w2 totalBytes')
         else Some (totalBytes, w1))"

text \<open>
  Nothing inside the outer \<open>try\<close> can throw (each request has its own \<open>catch\<close>), so its
  \<open>catch\<close>, which would return 0, is never entered.
\<close>

definition testDownloadSpeed :: "NetworkTester \<Rightarrow> world \<Rightarrow> (number \<times> world) option" where
  "testDownloadSpeed t w =
     (let (startTime, w1) = now w;
          endTime = js_add (Num startTime) (js_mul (option_value t ''downloadTestDuration'') (Num 1000))
      in case download_while endTime (isBrowser t) w1 0 of
           None \<Rightarrow> None
         | Some (totalBytes, w2) \<Rightarrow>
             (let (t1, w3) = now w2;
                  duration = div64 (sub64 t1 startTime) 1000;
                  speedBps = js_div (Num totalBytes) (Num duration);
                  speedMbps = js_div (js_mul speedBps (Num 8)) (js_mul (Num 1024) (Num 1024))
              in Some (js_div (Math_round (js_mul speedMbps (Num 100))) (Num 100), w3)))"

subsection \<open>testUploadSpeed\<close>

definition upload_testUrl :: string where
  "upload_testUrl = ''https://httpbin.org/post''"

text \<open>
  The upload loop: every request that succeeds counts the whole payload; the first one
  that fails ends the loop.
\<close>

partial_function (option) upload_while ::
  "number \<Rightarrow> nat \<Rightarrow> world \<Rightarrow> real \<Rightarrow> (real \<times> world) option" where
  "upload_while endTime data_length w totalBytes =
     (let (t, w1) = now w
      in if js_lt (Num t) endTime then
           (let (r, w2) = fetch upload_testUrl w1
            in case r of
                 NetworkError \<Rightarrow> Some (totalBytes, w2)
               | Response body \<Rightarrow>
                   upload_while endTime data_length w2 (add64 totalBytes (real data_length)))
         else Some (totalBytes, w1))"

text \<open>
  The payload is allocated before the \<open>try\<close>: a size that \<open>Uint8Array\<close> refuses throws to
  the caller. Its random content has no part in the result.
\<close>

definition testUploadSpeed :: "NetworkTester \<Rightarrow> world \<Rightarrow> ((error + number) \<times> world) option" where
  "testUploadSpeed t w =
     (case Uint8Array_length (option_value t ''testFileSize'') of
        Inl e \<Rightarrow> Some (Inl e, w)
      | Inr data_length \<Rightarrow>
          (let (startTime, w1) = now w;
               endTime = js_add (Num startTime) (js_mul (option_value t ''uploadTestDuration'') (Num 1000))
           in case upload_while endTime data_length w1 0 of
                None \<Rightarrow> None
              | Some (totalBytes, w2) \<Rightarrow>
                  (let (t1, w3) = now w2;
                       duration = div64 (sub64 t1 startTime) 1000;
                       speedBps = js_div (Num totalBytes) (Num duration);
                       speedMbps = js_div (js_mul speedBps (Num 8)) (js_mul (Num 1024) (Num 1024))
                   in Some (Inr (js_div (Math_round (js_mul speedMbps (Num 100))) (Num 100)), w3))))"

subsection \<open>quickCheck\<close>

definition quickCheck :: "world \<Rightarrow> QuickCheck \<times> world" where
  "quickCheck w =
     (let (start, w1) = now w;
          (r, w2) = fetch ''https://www.google.com/generate_204'' w1
      in case r of
           NetworkError \<Rightarrow> (\<lparr>isOnline = False, latency = - 1\<rparr>, w2)
         | Response body \<Rightarrow>
             (let (t, w3) = now w2 in (\<lparr>isOnline = True, latency = sub64 t start\<rparr>, w3)))"

subsection \<open>normalizeProviderName\<close>









section \<open>The specification's formulas\<close>

text \<open>
  The classification rule in the specification's words: an ordered list of tiers, each
  with its condition on (download, upload, latency); the first tier whose condition holds
  is chosen, and \<open>very-poor\<close> when none does.
\<close>

definition tier_rules :: "(quality_tier \<times> (real \<Rightarrow> real \<Rightarrow> real \<Rightarrow> bool)) list" where
  "tier_rules =
     [(excellent, \<lambda>d u l. 50 \<le> d \<and> 10 \<le> u \<and> l \<le> 30),
      (good, \<lambda>d u l. 25 \<le> d \<and> 5 \<le> u \<and> l \<le> 50),
      (fair, \<lambda>d u l. 10 \<le> d \<and> 2 \<le> u \<and> l \<le> 100),
      (poor, \<lambda>d u l. 5 \<le> d \<and> 1 \<le> u)]"

fun first_tier ::
  "(quality_tier \<times> (real \<Rightarrow> real \<Rightarrow> real \<Rightarrow> bool)) list \<Rightarrow> real \<Rightarrow> real \<Rightarrow> real \<Rightarrow> quality_tier" where
  "first_tier [] d u l = very_poor"
| "first_tier ((q, c) # rules) d u l = (if c d u l then q else first_tier rules d u l)"

definition classify :: "real \<Rightarrow> real \<Rightarrow> real \<Rightarrow> quality_tier" where
  "classify d u l = first_tier tier_rules d u l"

fun recommendation_of :: "quality_tier \<Rightarrow> string" where
  "recommendation_of excellent = ''Perfect for 4K streaming, gaming, and large file transfers.''"
| "recommendation_of good = ''Suitable for HD streaming, video calls, and online gaming.''"
| "recommendation_of fair =
     ''Good for browsing and SD streaming. May experience delays in video calls.''"
| "recommendation_of poor =
     ''Basic browsing only. Video streaming and calls will be problematic.''"
| "recommendation_of very_poor =
     ''Very slow connection. Consider switching networks or contacting your ISP.''"

text \<open>
  The latency statistics in the specification's words, computed as the doubles compute
  them: the sum adds the samples one by one in the order they were collected, the mean
  divides it by their number, and the jitter is the mean of the absolute deviations from
  the mean (not a standard deviation).
\<close>

definition sum64 :: "real list \<Rightarrow> real" where
  "sum64 xs = foldl add64 0 xs"

definition mean64 :: "real list \<Rightarrow> real" where
  "mean64 xs = div64 (sum64 xs) (real (length xs))"

definition mean_abs_deviation64 :: "real list \<Rightarrow> real" where
  "mean_abs_deviation64 xs = mean64 (map (\<lambda>x. \<bar>sub64 x (mean64 xs)\<bar>) xs)"



text \<open>
  The probes of one latency test on a world \<open>w\<close>. The test makes \<open>probes t\<close> attempts;
  attempt \<open>i\<close> sends request number \<open>length (sent w) + i\<close> and succeeds when that
  request does. It takes its first reading of the clock at \<open>probe_start w i\<close> (every
  earlier attempt took one reading, and a second one if it succeeded), and when it
  succeeds its sample is the time between that reading and the next.
\<close>

definition probes :: "NetworkTester \<Rightarrow> nat" where
  "probes t = (case options t ''latencyTestCount'' of Some c \<Rightarrow> nat \<lceil>c\<rceil> | None \<Rightarrow> 0)"

definition probe_ok :: "world \<Rightarrow> nat \<Rightarrow> bool" where
  "probe_ok w i = (net w (length (sent w) + i) \<noteq> NetworkError)"

definition probe_start :: "world \<Rightarrow> nat \<Rightarrow> nat" where
  "probe_start w i = ticks w + i + length (filter (probe_ok w) [0..<i])"

definition probe_sample :: "world \<Rightarrow> nat \<Rightarrow> real" where
  "probe_sample w i = sub64 (clock w (Suc (probe_start w i))) (clock w (probe_start w i))"

definition successful_samples :: "NetworkTester \<Rightarrow> world \<Rightarrow> real list" where
  "successful_samples t w = map (probe_sample w) (filter (probe_ok w) [0..<probes t])"

text \<open>
  The throughput formula: \<open>Mbps = (totalBytes / elapsedSeconds) * 8 / 1048576\<close>, rounded
  to two decimal places; the elapsed seconds are the milliseconds between two readings of
  the clock, divided by 1000.
\<close>

definition round_2dp :: "number \<Rightarrow> number" where
  "round_2dp x = js_div (Math_round (js_mul x (Num 100))) (Num 100)"

definition Mbps :: "real \<Rightarrow> real \<Rightarrow> number" where
  "Mbps totalBytes elapsedSeconds =
     round_2dp (js_div (js_mul (js_div (Num totalBytes) (Num elapsedSeconds)) (Num 8)) (Num 1048576))"

text \<open>
  The same formula over the real numbers, without rounding, and the rounding of a real
  number to two decimal places (to the nearest hundredth, a tie going up as in
  \<open>Math.round\<close>). \<open>hundredfold64\<close> is the value that the code hands to \<open>Math.round\<close>: a
  hundred times the formula, after the four roundings of its four operations.
\<close>

definition exact_Mbps :: "real \<Rightarrow> real \<Rightarrow> real" where
  "exact_Mbps totalBytes elapsedSeconds = totalBytes / elapsedSeconds * 8 / 1048576"

definition exact_round_2dp :: "real \<Rightarrow> real" where
  "exact_round_2dp x = of_int \<lfloor>x * 100 + 1 / 2\<rfloor> / 100"

definition hundredfold64 :: "real \<Rightarrow> real \<Rightarrow> real" where
  "hundredfold64 totalBytes elapsedSeconds =
     mul64 (div64 (mul64 (div64 totalBytes elapsedSeconds) 8) 1048576) 100"

definition elapsed_seconds :: "real \<Rightarrow> real \<Rightarrow> real" where
  "elapsed_seconds start stop = div64 (sub64 stop start) 1000"

definition deadline :: "real \<Rightarrow> number \<Rightarrow> number" where
  "deadline start seconds = js_add (Num start) (js_mul seconds (Num 1000))"



text \<open>The four options the tester recognises.\<close>

definition recognised_options :: "string set" where
  "recognised_options =
     {''downloadTestDuration'', ''uploadTestDuration'', ''latencyTestCount'', ''testFileSize''}"

section \<open>Example runs\<close>

text \<open>
  Five probes that all succeed, with the clock reading 0, 100, 100, 220, 220, 330, 330,
  420, 420, 550: the samples are 100, 120, 110, 90 and 130 ms.
\<close>

definition five_probes :: world where
  "five_probes =
     \<lparr>clock = (\<lambda>n. if n = 0 then 0 else if n \<le> 2 then 100 else if n \<le> 4 then 220
                     else if n \<le> 6 then 330 else if n \<le> 8 then 420 else 550),
      ticks = 0, net = (\<lambda>n. Response None), sent = []\<rparr>"

text \<open>
  Five probes of which the second and the fourth succeed; the clock reads \<open>10 * n * n\<close>
  at its \<open>n\<close>-th reading, so that the two samples are 30 and 90 ms.
\<close>

definition two_of_five :: world where
  "two_of_five =
     \<lparr>clock = (\<lambda>n. 10 * real n * real n), ticks = 0,
      net = (\<lambda>n. if n = 1 \<or> n = 3 then Response None else NetworkError), sent = []\<rparr>"

text \<open>
  Three probes of 0.1 ms each. \<open>tenth\<close> is the double that \<open>0.1\<close> denotes; the clock
  reads 0, 0.1, 0.1, 0.2, 0.20000000000000004 and 0.30000000000000004.
\<close>

definition tenth :: real where
  "tenth = 3602879701896397 / 2 ^ 55"

definition three_tenths :: world where
  "three_tenths =
     \<lparr>clock = (\<lambda>n. if n = 0 then 0 else if n \<le> 2 then tenth else if n = 3 then 2 * tenth
                     else if n = 4 then 2 * tenth + 1 / 2 ^ 55 else 3 * tenth + 1 / 2 ^ 55),
      ticks = 0, net = (\<lambda>n. Response None), sent = []\<rparr>"

text \<open>
  A download under Node that receives one body of 12,500,000 bytes, with the clock at 0
  until the body has arrived and at 2000 ms afterwards.
\<close>

definition one_download :: world where
  "one_download =
     \<lparr>clock = (\<lambda>n. if n < 3 then 0 else 2000), ticks = 0,
      net = (\<lambda>n. Response (Some [Chunk 12500000])), sent = []\<rparr>"

text \<open>
  A download under Node that receives one body of 376,832 bytes, with the clock at 0 until
  the body has arrived and at 5000 ms afterwards: 0.575 Mbps exactly.
\<close>

definition tie_download :: world where
  "tie_download =
     \<lparr>clock = (\<lambda>n. if n < 3 then 0 else 5000), ticks = 0,
      net = (\<lambda>n. Response (Some [Chunk 376832])), sent = []\<rparr>"

text \<open>
  An upload of which the first two requests succeed and the third fails, the clock
  advancing by 500 ms at every reading.
\<close>

definition two_uploads :: world where
  "two_uploads =
     \<lparr>clock = (\<lambda>n. 500 * real n), ticks = 0,
      net = (\<lambda>n. if n < 2 then Response None else NetworkError), sent = []\<rparr>"

text \<open>
  A network on which every request fails, with a clock that advances by one second at
  every reading; and the same network with a coarse clock, which still shows the same
  millisecond when the first request has failed.
\<close>

definition offline :: world where
  "offline = \<lparr>clock = (\<lambda>n. 1000 * real n), ticks = 0, net = (\<lambda>n. NetworkError), sent = []\<rparr>"

definition offline_coarse_clock :: world where
  "offline_coarse_clock =
     \<lparr>clock = (\<lambda>n. if n < 3 then 1000 else 1001), ticks = 0, net = (\<lambda>n. NetworkError),
      sent = []\<rparr>"

section \<open>Rounding\<close>

lemma two_powi_less_cancel:
  assumes "(2::real) powi a < 2 powi b"
  shows "a < b"
proof (rule ccontr)
  assume "\<not> a < b"
  then have "b \<le> a" by simp
  then have "(2::real) powi b \<le> 2 powi a" by (rule power_int_increasing) simp
  with assms show False by simp
qed

text \<open>The exponent is the one that the definition of \<open>binary64\<close> needs: \<open>\<lfloor>log\<^sub>2 |x|\<rfloor>\<close>.\<close>

lemma expo_bounds:
  assumes "x \<noteq> 0"
  shows "2 powi (expo x) \<le> \<bar>x\<bar>" "\<bar>x\<bar> < 2 powi (expo x + 1)"
proof -
  have "2 powi (expo x) \<le> \<bar>x\<bar> \<and> \<bar>x\<bar> < 2 powi (expo x + 1)"
  proof (cases "1 \<le> \<bar>x\<bar>")
    case True
    let ?n = "nat \<lfloor>\<bar>x\<bar>\<rfloor>"
    let ?l = "floorlog 2 ?n"
    have n: "0 < ?n" using True by simp
    have b: "2 ^ (?l - 1) \<le> ?n" "?n < 2 ^ ?l"
      using floorlog_bounds [OF n, of 2] by simp_all
    have l: "0 < ?l" using n by (simp add: floorlog_def)
    have e: "expo x = int ?l - 1" using True by (simp add: expo_def)
    have "real (2 ^ (?l - 1)) \<le> real ?n" using b(1) by (simp only: of_nat_le_iff)
    also have "real ?n \<le> \<bar>x\<bar>" using True by simp
    finally have lo: "2 ^ (?l - 1) \<le> \<bar>x\<bar>" by simp
    have "Suc ?n \<le> 2 ^ ?l" using b(2) by (rule Suc_leI)
    then have "real (Suc ?n) \<le> real (2 ^ ?l)" by (simp only: of_nat_le_iff)
    moreover have "\<bar>x\<bar> < real (Suc ?n)" using True by simp linarith
    ultimately have hi: "\<bar>x\<bar> < 2 ^ ?l" by simp
    have p1: "(2::real) powi (int ?l - 1) = 2 ^ (?l - 1)"
      using l by (simp add: power_int_def nat_diff_distrib')
    have p2: "(2::real) powi (int ?l - 1 + 1) = 2 ^ ?l"
      by (simp add: power_int_def)
    show ?thesis using lo hi by (simp only: e p1 p2)
  next
    case False
    let ?y = "1 / \<bar>x\<bar>"
    let ?m = "nat (\<lceil>?y\<rceil> - 1)"
    let ?l = "floorlog 2 ?m"
    have x: "0 < \<bar>x\<bar>" "\<bar>x\<bar> < 1" using assms False by simp_all
    have y: "1 < ?y" using x by simp
    then have c: "2 \<le> \<lceil>?y\<rceil>" by linarith
    then have m: "0 < ?m" by simp
    have b: "2 ^ (?l - 1) \<le> ?m" "?m < 2 ^ ?l"
      using floorlog_bounds [OF m, of 2] by simp_all
    have l: "0 < ?l" using m by (simp add: floorlog_def)
    have e: "expo x = - int ?l" using False by (simp add: expo_def)
    have "0 \<le> \<lceil>?y\<rceil> - 1" using c by linarith
    then have "real ?m = of_int (\<lceil>?y\<rceil> - 1)" by (rule of_nat_nat)
    then have mm: "real ?m = of_int \<lceil>?y\<rceil> - 1" by simp
    have "real (2 ^ (?l - 1)) \<le> real ?m" using b(1) by (simp only: of_nat_le_iff)
    also have "real ?m < ?y" unfolding mm by linarith
    finally have lo: "2 ^ (?l - 1) < ?y" by simp
    have "Suc ?m \<le> 2 ^ ?l" using b(2) by (rule Suc_leI)
    then have "real (Suc ?m) \<le> real (2 ^ ?l)" by (simp only: of_nat_le_iff)
    moreover have "?y \<le> real (Suc ?m)" using mm by simp
    ultimately have hi: "?y \<le> 2 ^ ?l" by simp
    have "\<bar>x\<bar> * 2 ^ (?l - 1) < 1" using lo x(1) by (simp add: pos_less_divide_eq mult.commute)
    then have hi': "\<bar>x\<bar> < 1 / 2 ^ (?l - 1)" by (simp add: pos_less_divide_eq)
    have "1 \<le> \<bar>x\<bar> * 2 ^ ?l" using hi x(1) by (simp add: pos_divide_le_eq mult.commute)
    then have lo': "1 / 2 ^ ?l \<le> \<bar>x\<bar>" by (simp add: pos_divide_le_eq)
    have p1: "(2::real) powi (- int ?l) = 1 / 2 ^ ?l"
      by (simp only: power_int_minus power_int_of_nat inverse_eq_divide)
    have "- int ?l + 1 = - int (?l - 1)" using l by simp
    then have "(2::real) powi (- int ?l + 1) = 2 powi (- int (?l - 1))" by (simp only:)
    also have "\<dots> = 1 / 2 ^ (?l - 1)" by (simp only: power_int_minus power_int_of_nat inverse_eq_divide)
    finally have p2: "(2::real) powi (- int ?l + 1) = 1 / 2 ^ (?l - 1)" .
    show ?thesis using lo' hi' by (simp only: e p1 p2)
  qed
  then show "2 powi (expo x) \<le> \<bar>x\<bar>" "\<bar>x\<bar> < 2 powi (expo x + 1)" by simp_all
qed

lemma expo_eqI:
  assumes "2 powi e \<le> \<bar>x\<bar>" "\<bar>x\<bar> < 2 powi (e + 1)"
  shows "expo x = e"
proof -
  have "(0::real) < 2 powi e" by simp
  then have "0 < \<bar>x\<bar>" using assms(1) by linarith
  then have nz: "x \<noteq> 0" by simp
  have "(2::real) powi e < 2 powi (expo x + 1)"
    using assms(1) expo_bounds(2) [OF nz] by linarith
  then have "e < expo x + 1" by (rule two_powi_less_cancel)
  moreover have "(2::real) powi (expo x) < 2 powi (e + 1)"
    using assms(2) expo_bounds(1) [OF nz] by linarith
  then have "expo x < e + 1" by (rule two_powi_less_cancel)
  ultimately show ?thesis by simp
qed

lemma two_powr_int: "(2::real) powr (of_int k) = 2 powi k"
  by (simp add: powr_real_of_int')

lemma expo_floor_log:
  assumes "x \<noteq> 0"
  shows "expo x = \<lfloor>log 2 \<bar>x\<bar>\<rfloor>"
proof -
  have "2 powr (of_int (expo x)) \<le> \<bar>x\<bar>" "\<bar>x\<bar> < 2 powr (of_int (expo x + 1))"
    using expo_bounds [OF assms] by (simp_all only: two_powr_int)
  then have "\<lfloor>log 2 \<bar>x\<bar>\<rfloor> = expo x"
    using assms floor_log_eq_powr_iff [of "\<bar>x\<bar>" 2 "expo x"] by simp
  then show ?thesis by simp
qed

lemma round_half_even_of_int [simp]: "round_half_even (of_int n) = n"
  by (simp add: round_half_even_def)

lemma round_half_even_nonneg: "0 \<le> x \<Longrightarrow> 0 \<le> round_half_even x"
  by (auto simp: round_half_even_def Let_def)

lemma round_half_even_pos: "1 \<le> x \<Longrightarrow> 0 < round_half_even x"
  by (auto simp: round_half_even_def Let_def)

lemma binary64_0 [simp]: "binary64 0 = 0"
  by (simp add: binary64_def)

lemma binary64_eval:
  assumes "2 powi e \<le> \<bar>x\<bar>" "\<bar>x\<bar> < 2 powi (e + 1)"
  shows "binary64 x = of_int (round_half_even (x * 2 powi (52 - e))) * 2 powi (e - 52)"
proof -
  have "(0::real) < 2 powi e" by simp
  then have "0 < \<bar>x\<bar>" using assms(1) by linarith
  then have "x \<noteq> 0" by simp
  then show ?thesis using expo_eqI [OF assms] by (simp add: binary64_def)
qed

lemma binary64_nonneg: "0 \<le> x \<Longrightarrow> 0 \<le> binary64 x"
  by (simp add: binary64_def round_half_even_nonneg)

lemma binary64_pos:
  assumes "0 < x"
  shows "0 < binary64 x"
proof -
  have nz: "x \<noteq> 0" using assms by simp
  have "2 powi (expo x) \<le> x" using expo_bounds(1) [OF nz] assms by simp
  then have "2 powi (expo x) * 2 powi (52 - expo x) \<le> x * 2 powi (52 - expo x)"
    by (intro mult_right_mono) simp_all
  moreover have "(2::real) powi (expo x) * 2 powi (52 - expo x) = 2 powi 52"
    by (simp flip: power_int_add)
  moreover have "(1::real) \<le> 2 powi 52" by simp
  ultimately have "1 \<le> x * 2 powi (52 - expo x)" by linarith
  then have "0 < round_half_even (x * 2 powi (52 - expo x))"
    by (rule round_half_even_pos)
  then show ?thesis using nz by (simp add: binary64_def)
qed


lemma expo_mult_powi:
  assumes "x \<noteq> 0"
  shows "expo (x * 2 powi k) = expo x + k"
proof (rule expo_eqI)
  have abs: "\<bar>x * 2 powi k\<bar> = \<bar>x\<bar> * 2 powi k" by (simp add: abs_mult)
  have "2 powi (expo x) * 2 powi k \<le> \<bar>x\<bar> * 2 powi k"
    using expo_bounds(1) [OF assms] by (intro mult_right_mono) simp_all
  then show "2 powi (expo x + k) \<le> \<bar>x * 2 powi k\<bar>"
    by (simp add: abs power_int_add)
  have "\<bar>x\<bar> * 2 powi k < 2 powi (expo x + 1) * 2 powi k"
    using expo_bounds(2) [OF assms] by (intro mult_strict_right_mono) simp_all
  then show "\<bar>x * 2 powi k\<bar> < 2 powi (expo x + k + 1)"
    by (simp add: abs power_int_add)
qed

lemma expo_of_int_range:
  assumes "m \<noteq> 0" "\<bar>m\<bar> < 2 ^ 53"
  shows "0 \<le> expo (of_int m)" "expo (of_int m) \<le> 52"
proof -
  let ?x = "of_int m :: real"
  have nz: "?x \<noteq> 0" using assms(1) by simp
  have "1 \<le> \<bar>m\<bar>" using assms(1) by simp
  then have "(of_int 1 :: real) \<le> of_int \<bar>m\<bar>" by (simp only: of_int_le_iff)
  then have one: "1 \<le> \<bar>?x\<bar>" by simp
  have "\<bar>?x\<bar> < 2 powi (expo ?x + 1)" by (rule expo_bounds(2) [OF nz])
  then have "(2::real) powi 0 < 2 powi (expo ?x + 1)" using one by simp
  then have "0 < expo ?x + 1" by (rule two_powi_less_cancel)
  then show "0 \<le> expo ?x" by simp
  have "(of_int \<bar>m\<bar> :: real) < of_int (2 ^ 53)" using assms(2) by (simp only: of_int_less_iff)
  then have "\<bar>?x\<bar> < 2 ^ 53" by simp
  moreover have "2 powi (expo ?x) \<le> \<bar>?x\<bar>" by (rule expo_bounds(1) [OF nz])
  ultimately have "(2::real) powi (expo ?x) < 2 powi 53" by simp
  then have "expo ?x < 53" by (rule two_powi_less_cancel)
  then show "expo ?x \<le> 52" by simp
qed

lemma binary64_exact:
  assumes "\<bar>m\<bar> < 2 ^ 53"
  shows "binary64 (of_int m * 2 powi k) = of_int m * 2 powi k"
proof (cases "m = 0")
  case True
  then show ?thesis by simp
next
  case False
  let ?x = "of_int m :: real"
  let ?e = "expo ?x"
  have nz: "?x \<noteq> 0" using False by simp
  have e: "expo (?x * 2 powi k) = ?e + k" by (rule expo_mult_powi [OF nz])
  have range: "0 \<le> 52 - ?e" using expo_of_int_range(2) [OF False assms] by simp
  have "?x * 2 powi k * 2 powi (52 - (?e + k)) = ?x * (2 powi k * 2 powi (52 - (?e + k)))"
    by simp
  also have "\<dots> = ?x * 2 powi (52 - ?e)" by (simp flip: power_int_add)
  also have "\<dots> = of_int (m * 2 ^ nat (52 - ?e))"
    using range by (simp add: power_int_def)
  finally have int: "?x * 2 powi k * 2 powi (52 - (?e + k)) = of_int (m * 2 ^ nat (52 - ?e))" .
  have "binary64 (?x * 2 powi k) =
      of_int (round_half_even (?x * 2 powi k * 2 powi (52 - (?e + k)))) * 2 powi (?e + k - 52)"
    using nz e by (simp add: binary64_def)
  also have "\<dots> = of_int (m * 2 ^ nat (52 - ?e)) * 2 powi (?e + k - 52)"
    by (simp only: int round_half_even_of_int)
  also have "\<dots> = ?x * (2 powi (52 - ?e) * 2 powi (?e + k - 52))"
    using range by (simp add: power_int_def)
  also have "\<dots> = ?x * 2 powi k" by (simp flip: power_int_add)
  finally show ?thesis .
qed

lemma binary64_of_int: "\<bar>m\<bar> < 2 ^ 53 \<Longrightarrow> binary64 (of_int m) = of_int m"
  using binary64_exact [of m 0] by simp

lemma binary64_numeral [simp]: "(numeral n :: int) < 2 ^ 53 \<Longrightarrow> binary64 (numeral n) = numeral n"
  using binary64_of_int [of "numeral n"] by simp

lemma binary64_neg_numeral [simp]:
  "(numeral n :: int) < 2 ^ 53 \<Longrightarrow> binary64 (- numeral n) = - numeral n"
  using binary64_of_int [of "- numeral n"] by simp

text \<open>The rounded value is within half a unit in the last place of the exact one.\<close>

lemma round_half_even_nearest: "\<bar>of_int (round_half_even y) - y\<bar> \<le> (1 / 2 :: real)"
  unfolding round_half_even_def Let_def by (auto; linarith)

lemma binary64_half_ulp:
  assumes "x \<noteq> 0"
  shows "\<bar>binary64 x - x\<bar> \<le> 2 powi (expo x - 53)"
proof -
  let ?y = "x * 2 powi (52 - expo x)"
  have x: "x = ?y * 2 powi (expo x - 52)"
    by (simp add: mult.assoc flip: power_int_add)
  have "binary64 x - x = (of_int (round_half_even ?y) - ?y) * 2 powi (expo x - 52)"
    using assms by (simp add: binary64_def algebra_simps flip: power_int_add)
  then have "\<bar>binary64 x - x\<bar> = \<bar>of_int (round_half_even ?y) - ?y\<bar> * 2 powi (expo x - 52)"
    by (simp add: abs_mult)
  also have "\<dots> \<le> 1 / 2 * 2 powi (expo x - 52)"
    by (intro mult_right_mono round_half_even_nearest) simp
  also have "\<dots> = 2 powi (expo x - 53)"
  proof -
    have "(2::real) powi (expo x - 52) = 2 powi (expo x - 53 + 1)" by simp
    also have "\<dots> = 2 powi (expo x - 53) * 2" by (subst power_int_add) simp_all
    finally show ?thesis by simp
  qed
  finally show ?thesis .
qed

lemma binary64_relative_error: "\<bar>binary64 x - x\<bar> \<le> unit_roundoff * \<bar>x\<bar>"
proof (cases "x = 0")
  case True
  then show ?thesis by simp
next
  case False
  have "(2::real) powi (expo x - 53) = 2 powi (expo x) * 2 powi (- 53)"
    by (subst power_int_add [symmetric]) simp_all
  also have "\<dots> = unit_roundoff * 2 powi (expo x)"
    by (simp add: unit_roundoff_def power_int_minus)
  also have "\<dots> \<le> unit_roundoff * \<bar>x\<bar>"
    using expo_bounds(1) [OF False] by (intro mult_left_mono) (simp_all add: unit_roundoff_def)
  finally show ?thesis using binary64_half_ulp [OF False] by linarith
qed

lemma binary64_upper: "0 \<le> x \<Longrightarrow> binary64 x \<le> (1 + unit_roundoff) * x"
  using binary64_relative_error [of x] by (simp add: algebra_simps abs_le_iff)

lemma binary64_lower: "0 \<le> x \<Longrightarrow> (1 - unit_roundoff) * x \<le> binary64 x"
  using binary64_relative_error [of x] by (simp add: algebra_simps abs_le_iff)



lemma unit_roundoff_pos: "0 < unit_roundoff" "unit_roundoff < 1"
  by (simp_all add: unit_roundoff_def)

lemma rounded_upper:
  assumes "0 \<le> x" "x \<le> (1 + unit_roundoff) ^ n * z"
  shows "binary64 x \<le> (1 + unit_roundoff) ^ Suc n * z"
proof -
  have "binary64 x \<le> (1 + unit_roundoff) * x" by (rule binary64_upper [OF assms(1)])
  also have "\<dots> \<le> (1 + unit_roundoff) * ((1 + unit_roundoff) ^ n * z)"
    using assms(2) unit_roundoff_pos by (intro mult_left_mono) auto
  finally show ?thesis by (simp add: mult.assoc)
qed

lemma rounded_lower:
  assumes "0 \<le> x" "(1 - unit_roundoff) ^ n * z \<le> x"
  shows "(1 - unit_roundoff) ^ Suc n * z \<le> binary64 x"
proof -
  have "(1 - unit_roundoff) * ((1 - unit_roundoff) ^ n * z) \<le> (1 - unit_roundoff) * x"
    using assms(2) unit_roundoff_pos by (intro mult_left_mono) auto
  also have "\<dots> \<le> binary64 x" by (rule binary64_lower [OF assms(1)])
  finally show ?thesis by (simp add: mult.assoc)
qed

lemma times_bound_lower: "0 \<le> (c::real) \<Longrightarrow> l * z \<le> x \<Longrightarrow> l * (z * c) \<le> x * c"
  using mult_right_mono [of "l * z" x c] by (simp add: mult.assoc)

lemma times_bound_upper: "0 \<le> (c::real) \<Longrightarrow> x \<le> h * z \<Longrightarrow> x * c \<le> h * (z * c)"
  using mult_right_mono [of x "h * z" c] by (simp add: mult.assoc)

lemma divide_bound_lower: "0 \<le> (c::real) \<Longrightarrow> l * z \<le> x \<Longrightarrow> l * (z / c) \<le> x / c"
  using divide_right_mono [of "l * z" x c] by simp

lemma divide_bound_upper: "0 \<le> (c::real) \<Longrightarrow> x \<le> h * z \<Longrightarrow> x / c \<le> h * (z / c)"
  using divide_right_mono [of x "h * z" c] by simp

section \<open>The probe loop and the statistics\<close>

declare latency_loop.simps [simp del]

lemma foldl_min_Min: "foldl min l ls = Min (set (l # ls))"
proof -
  have "fold (\<lambda>x s. min s x) ls l = fold min ls l"
    by (rule arg_cong [where f = "\<lambda>f. fold f ls l"]) (simp add: fun_eq_iff min.commute)
  then have "foldl min l ls = fold min ls l" by (simp add: foldl_conv_fold)
  then show ?thesis by (simp only: Min.set_eq_fold)
qed

lemma foldl_max_Max: "foldl max l ls = Max (set (l # ls))"
proof -
  have "fold (\<lambda>x s. max s x) ls l = fold max ls l"
    by (rule arg_cong [where f = "\<lambda>f. fold f ls l"]) (simp add: fun_eq_iff max.commute)
  then have "foldl max l ls = fold max ls l" by (simp add: foldl_conv_fold)
  then show ?thesis by (simp only: Max.set_eq_fold)
qed

lemma latency_statistics_nonempty:
  assumes "xs \<noteq> []"
  shows "latency_statistics xs =
    Inr \<lparr>avg = mean64 xs, jitter = mean_abs_deviation64 xs,
         minimum = Min (set xs), maximum = Max (set xs)\<rparr>"
proof -
  obtain l ls where xs: "xs = l # ls" using assms by (cases xs) auto
  have dev: "foldl (\<lambda>sum lat. add64 sum \<bar>sub64 lat a\<bar>) 0 xs = sum64 (map (\<lambda>x. \<bar>sub64 x a\<bar>) xs)" for a
    by (simp add: sum64_def foldl_map)
  have "latency_statistics xs =
    Inr \<lparr>avg = mean64 xs, jitter = mean_abs_deviation64 xs,
         minimum = foldl min l ls, maximum = foldl max l ls\<rparr>"
    unfolding latency_statistics_def mean_abs_deviation64_def
    by (simp add: xs Let_def mean64_def sum64_def foldl_map)
  then show ?thesis by (simp only: foldl_min_Min foldl_max_Max xs)
qed

lemma loop_condition: "js_lt (Num (real i)) (option_value t ''latencyTestCount'') = (i < probes t)"
proof (cases "options t ''latencyTestCount''")
  case None
  then show ?thesis by (simp add: option_value_def probes_def)
next
  case (Some c)
  have "(real i < c) = (i < nat \<lceil>c\<rceil>)"
  proof
    assume "real i < c"
    then have "real_of_int (int i) < c" by simp
    then have "int i < \<lceil>c\<rceil>" by (simp only: less_ceiling_iff)
    then show "i < nat \<lceil>c\<rceil>" by linarith
  next
    assume "i < nat \<lceil>c\<rceil>"
    then have "int i < \<lceil>c\<rceil>" by linarith
    then have "real_of_int (int i) < c" by (simp only: less_ceiling_iff)
    then show "real i < c" by simp
  qed
  then show ?thesis using Some by (simp add: option_value_def probes_def)
qed

lemma probe_start_Suc:
  "probe_start w (Suc i) = (if probe_ok w i then probe_start w i + 2 else probe_start w i + 1)"
  by (simp add: probe_start_def)

lemma request_eq:
  "(if b then fetch url w else https_request url w) =
     (net w (length (sent w)), w\<lparr>sent := sent w @ [url]\<rparr>)"
  by (simp add: fetch_def https_request_def)

lemma latency_loop_collect:
  assumes "clock w' = clock w" "net w' = net w" "length (sent w') = length (sent w) + i"
    "ticks w' = probe_start w i" "i \<le> probes t"
  shows "fst (latency_loop t i acc w') =
           acc @ map (probe_sample w) (filter (probe_ok w) [i..<probes t]) \<and>
         length (sent (snd (latency_loop t i acc w'))) = length (sent w) + probes t"
  using assms
proof (induction "probes t - i" arbitrary: i acc w')
  case 0
  then have "i = probes t" by simp
  then show ?case using "0.prems"
    by (subst (1 2) latency_loop.simps) (simp add: loop_condition)
next
  case (Suc k)
  then have lt: "i < probes t" by simp
  have upt: "[i..<probes t] = i # [Suc i..<probes t]" using lt by (simp add: upt_conv_Cons)
  have k: "k = probes t - Suc i" using Suc.hyps(2) by simp
  have le: "Suc i \<le> probes t" using lt by simp
  let ?w1 = "w'\<lparr>ticks := Suc (ticks w')\<rparr>"
  let ?url = "latency_testUrls ! (i mod length latency_testUrls)"
  let ?w2 = "?w1\<lparr>sent := sent ?w1 @ [?url]\<rparr>"
  have req: "(if isBrowser t then fetch ?url ?w1 else https_request ?url ?w1) =
      (net w (length (sent w) + i), ?w2)"
    using Suc.prems by (simp add: fetch_def https_request_def)
  show ?case
  proof (cases "probe_ok w i")
    case False
    then have err: "net w (length (sent w) + i) = NetworkError" by (simp add: probe_ok_def)
    have step: "latency_loop t i acc w' = latency_loop t (Suc i) acc ?w2"
      by (subst latency_loop.simps) (simp add: loop_condition lt now_def req err Let_def)
    have "fst (latency_loop t (Suc i) acc ?w2) =
           acc @ map (probe_sample w) (filter (probe_ok w) [Suc i..<probes t]) \<and>
         length (sent (snd (latency_loop t (Suc i) acc ?w2))) = length (sent w) + probes t"
      using Suc.prems False by (intro Suc.hyps(1) [OF k]) (simp_all add: probe_start_Suc le)
    then show ?thesis using False by (simp add: step upt)
  next
    case True
    then obtain body where ok: "net w (length (sent w) + i) = Response body"
      by (cases "net w (length (sent w) + i)") (auto simp: probe_ok_def)
    let ?w3 = "?w2\<lparr>ticks := Suc (ticks ?w2)\<rparr>"
    have step: "latency_loop t i acc w' =
        latency_loop t (Suc i) (acc @ [probe_sample w i]) ?w3"
      using Suc.prems
      by (subst latency_loop.simps)
         (simp add: loop_condition lt now_def request_eq ok Let_def probe_sample_def)
    have "fst (latency_loop t (Suc i) (acc @ [probe_sample w i]) ?w3) =
           (acc @ [probe_sample w i]) @ map (probe_sample w) (filter (probe_ok w) [Suc i..<probes t]) \<and>
         length (sent (snd (latency_loop t (Suc i) (acc @ [probe_sample w i]) ?w3))) =
           length (sent w) + probes t"
      using Suc.prems True by (intro Suc.hyps(1) [OF k]) (simp_all add: probe_start_Suc le)
    then show ?thesis using True by (simp add: step upt)
  qed
qed

lemma latency_loop_samples:
  "fst (latency_loop t 0 [] w) = successful_samples t w \<and>
   length (sent (snd (latency_loop t 0 [] w))) = length (sent w) + probes t"
  using latency_loop_collect [of w w 0 t "[]"]
  by (simp add: successful_samples_def probe_start_def)

lemma probes_default: "probes (constructor Map.empty b) = 5"
  by (simp add: probes_def constructor_def DEFAULT_OPTIONS_def)

lemma upt5: "[0..<5] = [0, 1, 2, 3, 4]"
  by (simp add: upt_rec)

lemma five_probes_samples:
  "fst (latency_loop (constructor Map.empty True) 0 [] five_probes) = [100, 120, 110, 90, 130]"
  by (simp add: latency_loop_samples successful_samples_def probes_default upt5 probe_ok_def
      probe_sample_def probe_start_def five_probes_def sub64_def)

lemma foldl_add64_nonneg:
  assumes "0 \<le> a" "\<forall>x\<in>set xs. 0 \<le> x"
  shows "0 \<le> foldl add64 a xs"
  using assms
proof (induction xs arbitrary: a)
  case Nil
  then show ?case by simp
next
  case (Cons x xs)
  have "0 \<le> add64 a x" using Cons.prems by (simp add: add64_def binary64_nonneg)
  then show ?case using Cons.prems by (simp add: Cons.IH)
qed

lemma mean_abs_deviation64_nonneg: "0 \<le> mean_abs_deviation64 xs"
proof -
  have "0 \<le> sum64 (map (\<lambda>x. \<bar>sub64 x (mean64 xs)\<bar>) xs)"
    unfolding sum64_def by (rule foldl_add64_nonneg) auto
  then show ?thesis
    by (simp add: mean_abs_deviation64_def mean64_def div64_def binary64_nonneg)
qed

lemma foldl_add64_upper:
  assumes "0 \<le> a" "\<forall>x\<in>set xs. 0 \<le> x"
  shows "foldl add64 a xs \<le> (1 + unit_roundoff) ^ length xs * (a + sum_list xs)"
  using assms
proof (induction xs arbitrary: a)
  case Nil
  then show ?case by simp
next
  case (Cons x xs)
  let ?u = "1 + unit_roundoff"
  have u: "1 \<le> ?u" by (simp add: unit_roundoff_def)
  have s: "0 \<le> sum_list xs" using Cons.prems(2) by (simp add: sum_list_nonneg)
  have a': "0 \<le> add64 a x" using Cons.prems by (simp add: add64_def binary64_nonneg)
  have "add64 a x \<le> ?u * (a + x)" unfolding add64_def using Cons.prems by (intro binary64_upper) simp
  moreover have "1 * sum_list xs \<le> ?u * sum_list xs"
    using s u by (intro mult_right_mono)
  ultimately have "add64 a x + sum_list xs \<le> ?u * (a + x) + ?u * sum_list xs"
    by simp
  then have step: "add64 a x + sum_list xs \<le> ?u * (a + x + sum_list xs)"
    by (simp add: algebra_simps)
  have "foldl add64 (add64 a x) xs \<le> ?u ^ length xs * (add64 a x + sum_list xs)"
    using a' Cons.prems(2) by (intro Cons.IH) simp_all
  also have "\<dots> \<le> ?u ^ length xs * (?u * (a + x + sum_list xs))"
    using step u by (intro mult_left_mono) simp_all
  finally show ?case by (simp add: algebra_simps)
qed

lemma foldl_add64_lower:
  assumes "0 \<le> a" "\<forall>x\<in>set xs. 0 \<le> x"
  shows "(1 - unit_roundoff) ^ length xs * (a + sum_list xs) \<le> foldl add64 a xs"
  using assms
proof (induction xs arbitrary: a)
  case Nil
  then show ?case by simp
next
  case (Cons x xs)
  let ?u = "1 - unit_roundoff"
  have u: "0 \<le> ?u" "?u \<le> 1" by (simp_all add: unit_roundoff_def)
  have s: "0 \<le> sum_list xs" using Cons.prems(2) by (simp add: sum_list_nonneg)
  have a': "0 \<le> add64 a x" using Cons.prems by (simp add: add64_def binary64_nonneg)
  have "?u * (a + x) \<le> add64 a x" unfolding add64_def using Cons.prems by (intro binary64_lower) simp
  moreover have "?u * sum_list xs \<le> sum_list xs" using s u by (simp add: mult_left_le_one_le)
  ultimately have step: "?u * (a + x + sum_list xs) \<le> add64 a x + sum_list xs"
    by (simp add: algebra_simps)
  have "?u ^ length xs * (?u * (a + x + sum_list xs)) \<le> ?u ^ length xs * (add64 a x + sum_list xs)"
    using step u by (intro mult_left_mono) simp_all
  also have "\<dots> \<le> foldl add64 (add64 a x) xs"
    using a' Cons.prems(2) by (intro Cons.IH) simp_all
  finally show ?case by (simp add: algebra_simps)
qed

lemma mean64_bounds:
  assumes "xs \<noteq> []" "\<forall>x\<in>set xs. 0 \<le> x"
  shows "(1 - unit_roundoff) ^ Suc (length xs) * (sum_list xs / real (length xs)) \<le> mean64 xs"
    and "mean64 xs \<le> (1 + unit_roundoff) ^ Suc (length xs) * (sum_list xs / real (length xs))"
proof -
  let ?n = "real (length xs)"
  have n: "0 < ?n" using assms(1) by simp
  have s: "0 \<le> sum_list xs" using assms(2) by (simp add: sum_list_nonneg)
  have up: "sum64 xs \<le> (1 + unit_roundoff) ^ length xs * sum_list xs"
    using foldl_add64_upper [of 0 xs] assms(2) by (simp add: sum64_def)
  have lo: "(1 - unit_roundoff) ^ length xs * sum_list xs \<le> sum64 xs"
    using foldl_add64_lower [of 0 xs] assms(2) by (simp add: sum64_def)
  have u: "0 \<le> 1 - unit_roundoff" "0 \<le> 1 + unit_roundoff" by (simp_all add: unit_roundoff_def)
  have nonneg: "0 \<le> sum64 xs"
    unfolding sum64_def using assms(2) by (intro foldl_add64_nonneg) simp_all
  have q: "0 \<le> sum64 xs / ?n" using nonneg n by simp
  have "mean64 xs \<le> (1 + unit_roundoff) * (sum64 xs / ?n)"
    unfolding mean64_def div64_def by (rule binary64_upper [OF q])
  also have "\<dots> \<le> (1 + unit_roundoff) * ((1 + unit_roundoff) ^ length xs * sum_list xs / ?n)"
    using up n u by (intro mult_left_mono divide_right_mono) simp_all
  also have "\<dots> = (1 + unit_roundoff) ^ Suc (length xs) * (sum_list xs / ?n)"
    by simp
  finally show "mean64 xs \<le> (1 + unit_roundoff) ^ Suc (length xs) * (sum_list xs / ?n)" .
  have "(1 - unit_roundoff) ^ Suc (length xs) * (sum_list xs / ?n) =
      (1 - unit_roundoff) * ((1 - unit_roundoff) ^ length xs * sum_list xs / ?n)"
    by simp
  also have "\<dots> \<le> (1 - unit_roundoff) * (sum64 xs / ?n)"
    using lo n u by (intro mult_left_mono divide_right_mono) simp_all
  also have "\<dots> \<le> mean64 xs"
    unfolding mean64_def div64_def by (rule binary64_lower [OF q])
  finally show "(1 - unit_roundoff) ^ Suc (length xs) * (sum_list xs / ?n) \<le> mean64 xs" .
qed




lemma sum_list_lower: "\<forall>x\<in>set xs. m \<le> x \<Longrightarrow> real (length xs) * m \<le> sum_list xs"
  by (induction xs) (auto simp: algebra_simps)

lemma sum_list_upper: "\<forall>x\<in>set xs. x \<le> m \<Longrightarrow> sum_list xs \<le> real (length xs) * (m::real)"
  by (induction xs) (auto simp: algebra_simps)

lemma exact_mean_bounds:
  assumes "xs \<noteq> []"
  shows "Min (set xs) \<le> sum_list xs / real (length xs)"
    and "sum_list xs / real (length xs) \<le> Max (set xs)"
proof -
  have n: "0 < real (length xs)" using assms by simp
  have "real (length xs) * Min (set xs) \<le> sum_list xs" by (rule sum_list_lower) simp
  then show "Min (set xs) \<le> sum_list xs / real (length xs)"
    using n by (simp add: pos_le_divide_eq mult.commute)
  have "sum_list xs \<le> real (length xs) * Max (set xs)" by (rule sum_list_upper) simp
  then show "sum_list xs / real (length xs) \<le> Max (set xs)"
    using n by (simp add: pos_divide_le_eq mult.commute)
qed

lemma probes_three: "probes (constructor [''latencyTestCount'' \<mapsto> 3] b) = 3"
  by (simp add: probes_def constructor_def)

lemma upt3: "[0..<3] = [0, 1, 2]"
  by (simp add: upt_rec)

lemma binary64_tenth: "binary64 tenth = tenth"
  using binary64_exact [of 3602879701896397 "-55"] by (simp add: tenth_def power_int_minus)

lemma three_tenths_samples:
  "fst (latency_loop (constructor [''latencyTestCount'' \<mapsto> 3] True) 0 [] three_tenths) =
     [tenth, tenth, tenth]"
proof -
  have ok: "probe_ok three_tenths i" for i
    by (simp add: probe_ok_def three_tenths_def)
  have start: "probe_start three_tenths 0 = 0" "probe_start three_tenths (Suc 0) = 2"
    "probe_start three_tenths 2 = 4"
    by (simp_all add: probe_start_def ok upt_rec) (simp_all add: three_tenths_def)
  have "probe_sample three_tenths 0 = tenth" "probe_sample three_tenths (Suc 0) = tenth"
    "probe_sample three_tenths 2 = tenth"
    by (simp_all add: probe_sample_def start) (simp_all add: three_tenths_def sub64_def binary64_tenth)
  then show ?thesis
    by (simp add: latency_loop_samples successful_samples_def probes_three upt3 ok)
qed

text \<open>The statistics of the two example runs.\<close>

lemma three_tenths_statistics:
  "fst (testLatency (constructor [''latencyTestCount'' \<mapsto> 3] True) three_tenths) =
     Inr \<lparr>avg = 7205759403792795 / 2 ^ 56, jitter = 1 / 2 ^ 56,
          minimum = tenth, maximum = tenth\<rparr>"
proof -
  have s2: "binary64 (2 * tenth) = 2 * tenth"
    using binary64_exact [of 3602879701896397 "-54"] by (simp add: tenth_def power_int_minus)
  have s3: "binary64 (3 * tenth) = 5404319552844596 / 2 ^ 54"
    unfolding tenth_def
    by (subst binary64_eval [where e = "-2"]) (simp_all add: round_half_even_def power_int_minus)
  have q: "binary64 (5404319552844596 / 2 ^ 54 / 3) = 7205759403792795 / 2 ^ 56"
    by (subst binary64_eval [where e = "-4"]) (simp_all add: round_half_even_def power_int_minus)
  have d: "binary64 (tenth - 7205759403792795 / 2 ^ 56) = - (1 / 2 ^ 56)"
    using binary64_exact [of "-1" "-56"] by (simp add: tenth_def power_int_minus)
  have d1: "binary64 (1 / 2 ^ 56) = 1 / 2 ^ 56"
    using binary64_exact [of 1 "-56"] by (simp add: power_int_minus)
  have d2: "binary64 (2 / 2 ^ 56) = 2 / 2 ^ 56"
    using binary64_exact [of 2 "-56"] by (simp add: power_int_minus)
  have d3: "binary64 (3 / 2 ^ 56) = 3 / 2 ^ 56"
    using binary64_exact [of 3 "-56"] by (simp add: power_int_minus)
  have a1: "add64 0 tenth = tenth" by (simp add: add64_def binary64_tenth)
  have a2: "add64 tenth tenth = 2 * tenth" by (simp add: add64_def s2)
  have a3: "add64 (2 * tenth) tenth = 5404319552844596 / 2 ^ 54" by (simp add: add64_def s3)
  have len: "real (length [a, b, c]) = 3" for a b c :: real by simp
  have sum: "sum64 [tenth, tenth, tenth] = 5404319552844596 / 2 ^ 54"
    unfolding sum64_def foldl.simps a1 a2 a3 by (rule refl)
  have mean: "mean64 [tenth, tenth, tenth] = 7205759403792795 / 2 ^ 56"
    unfolding mean64_def sum len div64_def by (rule q)
  have dev: "\<bar>sub64 tenth (7205759403792795 / 2 ^ 56)\<bar> = 1 / 2 ^ 56"
    unfolding sub64_def d by simp
  have e1: "add64 0 (1 / 2 ^ 56) = 1 / 2 ^ 56"
    unfolding add64_def add_0 by (rule d1)
  have "(1 / 2 ^ 56 + 1 / 2 ^ 56 :: real) = 2 / 2 ^ 56" by simp
  then have e2: "add64 (1 / 2 ^ 56) (1 / 2 ^ 56) = 2 / 2 ^ 56"
    unfolding add64_def by (simp only: d2)
  have "(2 / 2 ^ 56 + 1 / 2 ^ 56 :: real) = 3 / 2 ^ 56" by simp
  then have e3: "add64 (2 / 2 ^ 56) (1 / 2 ^ 56) = 3 / 2 ^ 56"
    unfolding add64_def by (simp only: d3)
  have "(3 / 2 ^ 56 / 3 :: real) = 1 / 2 ^ 56" by simp
  then have e4: "div64 (3 / 2 ^ 56) 3 = 1 / 2 ^ 56"
    unfolding div64_def by (simp only: d1)
  have "mean_abs_deviation64 [tenth, tenth, tenth] = 1 / 2 ^ 56"
    unfolding mean_abs_deviation64_def mean
    unfolding mean64_def sum64_def list.map foldl.simps dev e1 e2 e3 len by (rule e4)
  then show ?thesis
    using three_tenths_samples latency_statistics_nonempty [of "[tenth, tenth, tenth]"] mean
    by (cases "latency_loop (constructor [''latencyTestCount'' \<mapsto> 3] True) 0 [] three_tenths")
       (simp add: testLatency_def)
qed


section \<open>The throughput loops\<close>

lemma read_loop_world:
  "clock (snd (read_loop e cs w tb)) = clock w \<and> net (snd (read_loop e cs w tb)) = net w \<and>
   sent (snd (read_loop e cs w tb)) = sent w \<and> ticks w < ticks (snd (read_loop e cs w tb))"
proof (induction cs arbitrary: w tb)
  case Nil
  then show ?case by (simp add: now_def)
next
  case (Cons c cs)
  show ?case
  proof (cases c)
    case (Chunk n)
    show ?thesis
      using Cons.IH [of "w\<lparr>ticks := Suc (ticks w)\<rparr>" "add64 tb (real n)"]
      by (simp add: Chunk now_def)
  next
    case ReadError
    then show ?thesis by (simp add: now_def)
  qed
qed

lemma download_for_world:
  "clock (snd (download_for e b urls w tb)) = clock w \<and>
   net (snd (download_for e b urls w tb)) = net w \<and>
   ticks w \<le> ticks (snd (download_for e b urls w tb))"
proof (induction urls arbitrary: w tb)
  case Nil
  then show ?case by simp
next
  case (Cons url urls)
  let ?w2 = "w\<lparr>ticks := Suc (ticks w), sent := sent w @ [url]\<rparr>"
  let ?r = "net w (length (sent w))"
  show ?case
  proof (cases "js_ge (Num (clock w (ticks w))) e")
    case True
    then show ?thesis by (simp add: now_def)
  next
    case False
    show ?thesis
    proof (cases ?r)
      case NetworkError
      then show ?thesis using Cons.IH [of ?w2 tb] False by (simp add: now_def fetch_def)
    next
      case (Response body)
      show ?thesis
      proof (cases "b \<and> body \<noteq> None")
        case True
        then obtain cs where body: "body = Some cs" by auto
        obtain tb' w3 where rl: "read_loop e cs ?w2 tb = (tb', w3)" by (cases "read_loop e cs ?w2 tb")
        have w3: "clock w3 = clock w" "net w3 = net w" "ticks ?w2 < ticks w3"
          using read_loop_world [of e cs ?w2 tb] by (simp_all add: rl)
        show ?thesis using Cons.IH [of w3 tb'] False True w3
          by (simp add: now_def fetch_def Response body rl)
      next
        case nb: False
        show ?thesis
        proof (cases "arrayBuffer body")
          case None
          then show ?thesis using Cons.IH [of ?w2 tb] False nb
            by (auto simp: now_def fetch_def Response)
        next
          case (Some n)
          then show ?thesis using Cons.IH [of ?w2 "add64 tb (real n)"] False nb
            by (auto simp: now_def fetch_def Response)
        qed
      qed
    qed
  qed
qed

lemma download_for_all_fail:
  assumes "\<forall>n. net w n = NetworkError"
  shows "fst (download_for e b urls w tb) = tb"
  using assms
proof (induction urls arbitrary: w)
  case Nil
  then show ?case by simp
next
  case (Cons url urls)
  let ?w2 = "w\<lparr>ticks := Suc (ticks w), sent := sent w @ [url]\<rparr>"
  have "fst (download_for e b urls ?w2 tb) = tb" using Cons.prems by (intro Cons.IH) simp
  then show ?case using Cons.prems by (simp add: now_def fetch_def)
qed


lemma download_while_returns:
  assumes "\<forall>j\<ge>k. \<not> js_lt (Num (clock w j)) e"
  shows "\<exists>tb' w'. download_while e b w tb = Some (tb', w') \<and> clock w' = clock w \<and>
           net w' = net w \<and> ticks w < ticks w' \<and>
           \<not> js_lt (Num (clock w (ticks w' - 1))) e \<and>
           ((\<forall>n. net w n = NetworkError) \<longrightarrow> tb' = tb)"
  using assms
proof (induction "k - ticks w" arbitrary: w tb rule: less_induct)
  case less
  let ?w1 = "w\<lparr>ticks := Suc (ticks w)\<rparr>"
  show ?case
  proof (cases "js_lt (Num (clock w (ticks w))) e")
    case False
    then show ?thesis by (subst download_while.simps) (simp add: now_def)
  next
    case True
    then have lt: "ticks w < k" using less.prems by (meson not_le)
    obtain tb2 w2 where df: "download_for e b download_testUrls ?w1 tb = (tb2, w2)"
      by (cases "download_for e b download_testUrls ?w1 tb")
    have w2: "clock w2 = clock w" "net w2 = net w" "Suc (ticks w) \<le> ticks w2"
      using download_for_world [of e b download_testUrls ?w1 tb] by (simp_all add: df)
    have tb2: "(\<forall>n. net w n = NetworkError) \<longrightarrow> tb2 = tb"
      using download_for_all_fail [of ?w1 e b download_testUrls tb] by (simp add: df)
    have "\<exists>tb' w'. download_while e b w2 tb2 = Some (tb', w') \<and> clock w' = clock w2 \<and>
           net w' = net w2 \<and> ticks w2 < ticks w' \<and>
           \<not> js_lt (Num (clock w2 (ticks w' - 1))) e \<and>
           ((\<forall>n. net w2 n = NetworkError) \<longrightarrow> tb' = tb2)"
      using lt w2 less.prems by (intro less.hyps) simp_all
    then obtain tb' w' where r: "download_while e b w2 tb2 = Some (tb', w')" "clock w' = clock w2"
      "net w' = net w2" "ticks w2 < ticks w'" "\<not> js_lt (Num (clock w2 (ticks w' - 1))) e"
      "(\<forall>n. net w2 n = NetworkError) \<longrightarrow> tb' = tb2"
      by blast
    have "download_while e b w tb = download_while e b w2 tb2"
      by (subst download_while.simps) (simp add: now_def True df)
    then show ?thesis using r w2 tb2 by simp
  qed
qed

lemma upload_while_first_fails:
  assumes "js_lt (Num (clock w (ticks w))) e" "net w (length (sent w)) = NetworkError"
  shows "upload_while e n w tb =
    Some (tb, w\<lparr>ticks := Suc (ticks w), sent := sent w @ [upload_testUrl]\<rparr>)"
  using assms by (subst upload_while.simps) (simp add: now_def fetch_def)

lemma upload_while_past_deadline:
  assumes "\<not> js_lt (Num (clock w (ticks w))) e"
  shows "upload_while e n w tb = Some (tb, w\<lparr>ticks := Suc (ticks w)\<rparr>)"
  using assms by (subst upload_while.simps) (simp add: now_def)

lemma mul64_zero: "mul64 0 y = 0"
  by (simp add: mul64_def)

lemma mul64_1024: "mul64 1024 1024 = 1048576"
  by (simp add: mul64_def)

lemma duration_pos:
  assumes "start < t1"
  shows "div64 (sub64 t1 start) 1000 \<noteq> 0"
proof -
  have "0 < sub64 t1 start" using assms by (simp add: sub64_def binary64_pos)
  then have "0 < sub64 t1 start / 1000" by simp
  then have "0 < div64 (sub64 t1 start) 1000" unfolding div64_def by (rule binary64_pos)
  then show ?thesis by simp
qed

text \<open>
  When every request fails. A failed download request is skipped and the loop goes on to
  the next endpoint; with a clock that does not go back and that reaches the deadline,
  and a deadline after the start, the download loop ends and the result is 0. The first
  failed upload request ends the upload loop, after one request at most, and the result
  is 0 provided that the clock has advanced between the first reading and the last.
\<close>

lemma download_for_skips_failed_request:
  assumes "\<not> js_ge (Num (clock w (ticks w))) e" "net w (length (sent w)) = NetworkError"
  shows "download_for e b (url # urls) w tb =
    download_for e b urls (w\<lparr>ticks := Suc (ticks w), sent := sent w @ [url]\<rparr>) tb"
  using assms by (simp add: now_def fetch_def)

lemma testDownloadSpeed_all_fail:
  assumes d: "option_value t ''downloadTestDuration'' = Num d"
    and e: "e = add64 (clock w (ticks w)) (mul64 d 1000)"
    and after: "clock w (ticks w) < e"
    and mono: "\<forall>i j. i \<le> j \<longrightarrow> clock w i \<le> clock w j"
    and reach: "e \<le> clock w k"
    and fail: "\<forall>n. net w n = NetworkError"
  shows "\<exists>w'. testDownloadSpeed t w = Some (Num 0, w')"
proof -
  let ?w1 = "w\<lparr>ticks := Suc (ticks w)\<rparr>"
  have past: "\<forall>j\<ge>k. \<not> js_lt (Num (clock ?w1 j)) (Num e)"
  proof (intro allI impI)
    fix j assume "k \<le> j"
    then have "clock w k \<le> clock w j" using mono by blast
    then show "\<not> js_lt (Num (clock ?w1 j)) (Num e)" using reach by simp
  qed
  obtain tb' w2 where r: "download_while (Num e) (isBrowser t) ?w1 0 = Some (tb', w2)"
    "clock w2 = clock ?w1" "ticks ?w1 < ticks w2"
    "\<not> js_lt (Num (clock ?w1 (ticks w2 - 1))) (Num e)"
    "(\<forall>n. net ?w1 n = NetworkError) \<longrightarrow> tb' = 0"
    using download_while_returns [OF past, of "isBrowser t" 0] by blast
  have tb': "tb' = 0" using r(5) fail by simp
  have "e \<le> clock w (ticks w2 - 1)" using r(4) by simp
  also have "\<dots> \<le> clock w (ticks w2)" using mono by simp
  finally have "clock w (ticks w) < clock w (ticks w2)" using after by simp
  then have dur: "div64 (sub64 (clock w2 (ticks w2)) (clock w (ticks w))) 1000 \<noteq> 0"
    using r(2) by (simp add: duration_pos)
  show ?thesis
    unfolding testDownloadSpeed_def
    using dur by (simp add: now_def d e [symmetric] r(1) tb' mul64_zero mul64_1024 Let_def)
qed

lemma testUploadSpeed_all_fail:
  assumes n: "Uint8Array_length (option_value t ''testFileSize'') = Inr n"
    and d: "option_value t ''uploadTestDuration'' = Num d"
    and fail: "net w (length (sent w)) = NetworkError"
    and elapsed: "clock w (ticks w) < clock w (ticks w + 2)"
  shows "\<exists>w'. testUploadSpeed t w = Some (Inr (Num 0), w') \<and> length (sent w') \<le> length (sent w) + 1"
proof -
  let ?e = "Num (add64 (clock w (ticks w)) (mul64 d 1000))"
  let ?w1 = "w\<lparr>ticks := Suc (ticks w)\<rparr>"
  have dur: "div64 (sub64 (clock w (Suc (Suc (ticks w)))) (clock w (ticks w))) 1000 \<noteq> 0"
    using elapsed by (simp add: duration_pos)
  show ?thesis
  proof (cases "js_lt (Num (clock ?w1 (ticks ?w1))) ?e")
    case True
    have "upload_while ?e n ?w1 0 =
        Some (0, ?w1\<lparr>ticks := Suc (ticks ?w1), sent := sent ?w1 @ [upload_testUrl]\<rparr>)"
      using True fail by (intro upload_while_first_fails) simp_all
    then show ?thesis
      unfolding testUploadSpeed_def using dur
      by (simp add: n d now_def mul64_zero mul64_1024 Let_def)
  next
    case False
    have "upload_while ?e n ?w1 0 = Some (0, ?w1\<lparr>ticks := Suc (ticks ?w1)\<rparr>)"
      using False by (intro upload_while_past_deadline) simp_all
    then show ?thesis
      unfolding testUploadSpeed_def using dur
      by (simp add: n d now_def mul64_zero mul64_1024 Let_def)
  qed
qed

lemma offline_download:
  "testDownloadSpeed (constructor Map.empty False) offline =
     Some (Num 0, offline\<lparr>ticks := 8, sent := download_testUrls\<rparr>)"
proof -
  have loop: "download_while (Num 5000) False (offline\<lparr>ticks := Suc 0\<rparr>) 0 =
      Some (0, offline\<lparr>ticks := 7, sent := download_testUrls\<rparr>)"
    apply (subst download_while.simps)
    apply (simp add: now_def offline_def download_testUrls_def fetch_def js_ge_def)
    apply (subst download_while.simps)
    apply (simp add: now_def download_testUrls_def fetch_def js_ge_def)
    apply (subst download_while.simps)
    apply (simp add: now_def)
    done
  have e: "js_add (Num (clock offline (ticks offline)))
      (js_mul (option_value (constructor Map.empty False) ''downloadTestDuration'') (Num 1000)) = Num 5000"
    by (simp add: option_value_def constructor_def DEFAULT_OPTIONS_def offline_def add64_def mul64_def)
  show ?thesis
    unfolding testDownloadSpeed_def
    apply (simp add: now_def e Let_def)
    apply (simp add: offline_def constructor_def)
    using loop
    apply (simp add: offline_def now_def sub64_def div64_def mul64_def)
    done
qed

lemma offline_upload:
  "testUploadSpeed (constructor Map.empty True) offline =
     Some (Inr (Num 0), offline\<lparr>ticks := 3, sent := [upload_testUrl]\<rparr>)"
  unfolding testUploadSpeed_def
  apply (simp add: now_def constructor_def option_value_def DEFAULT_OPTIONS_def mul64_def add64_def sub64_def div64_def)
  apply (simp add: offline_def)
  apply (subst upload_while.simps)
  apply (simp add: offline_def now_def fetch_def mul64_def add64_def sub64_def div64_def)
  done

text \<open>The two loops on the example runs.\<close>

lemma one_download_loop:
  "download_while (Num 2000) False (one_download\<lparr>ticks := Suc 0\<rparr>) 0 =
     Some (12500000, one_download\<lparr>ticks := 5, sent := [''https://speed.cloudflare.com/__down?bytes=10000000'']\<rparr>)"
  apply (subst download_while.simps)
  apply (simp add: now_def one_download_def download_testUrls_def fetch_def js_ge_def add64_def)
  apply (subst download_while.simps)
  apply (simp add: now_def)
  done

lemma two_uploads_loop:
  "upload_while (Num 5000) 102400 (two_uploads\<lparr>ticks := Suc 0\<rparr>) 0 =
     Some (204800, two_uploads\<lparr>ticks := 4, sent := [upload_testUrl, upload_testUrl, upload_testUrl]\<rparr>)"
  apply (subst upload_while.simps)
  apply (simp add: now_def two_uploads_def fetch_def add64_def)
  apply (subst upload_while.simps)
  apply (simp add: now_def fetch_def add64_def)
  apply (subst upload_while.simps)
  apply (simp add: now_def fetch_def add64_def)
  done

text \<open>The accumulated byte count is never negative.\<close>

lemma add64_nonneg: "0 \<le> a \<Longrightarrow> 0 \<le> b \<Longrightarrow> 0 \<le> add64 a b"
  by (simp add: add64_def binary64_nonneg)

lemma read_loop_nonneg: "0 \<le> tb \<Longrightarrow> 0 \<le> fst (read_loop e cs w tb)"
proof (induction cs arbitrary: w tb)
  case Nil
  then show ?case by (simp add: now_def)
next
  case (Cons c cs)
  then show ?case by (cases c) (simp_all add: now_def add64_nonneg)
qed

lemma download_for_nonneg: "0 \<le> tb \<Longrightarrow> 0 \<le> fst (download_for e b urls w tb)"
proof (induction urls arbitrary: w tb b)
  case Nil
  then show ?case by simp
next
  case (Cons url urls)
  show ?case
    using Cons.prems
    by (simp add: now_def fetch_def split_beta Cons.IH read_loop_nonneg add64_nonneg
        split: response.splits option.splits)
qed

lemma download_while_nonneg:
  assumes "download_while e b w tb = Some y"
  shows "0 \<le> tb \<longrightarrow> 0 \<le> fst y"
proof (rule download_while.raw_induct [where P = "\<lambda>e b w tb y. 0 \<le> tb \<longrightarrow> 0 \<le> fst y", OF _ assms],
    goal_cases)
  case (1 download_while e b w tb y)
  show ?case
  proof (cases "js_lt (Num (clock w (ticks w))) e")
    case True
    let ?r = "download_for e b download_testUrls (w\<lparr>ticks := Suc (ticks w)\<rparr>) tb"
    have "download_while e b (snd ?r) (fst ?r) = Some y"
      using 1(2) True by (simp add: now_def split_beta)
    then have "0 \<le> fst ?r \<longrightarrow> 0 \<le> fst y" by (rule 1(1))
    then show ?thesis using download_for_nonneg [of tb] by blast
  next
    case False
    then show ?thesis using 1(2) by (auto simp: now_def)
  qed
qed

lemma upload_while_nonneg:
  assumes "upload_while e n w tb = Some y"
  shows "0 \<le> tb \<longrightarrow> 0 \<le> fst y"
proof (rule upload_while.raw_induct [where P = "\<lambda>e n w tb y. 0 \<le> tb \<longrightarrow> 0 \<le> fst y", OF _ assms],
    goal_cases)
  case (1 upload_while e n w tb y)
  show ?case
  proof (cases "js_lt (Num (clock w (ticks w))) e")
    case True
    show ?thesis
    proof (cases "net w (length (sent w))")
      case NetworkError
      then show ?thesis using 1(2) True by (auto simp: now_def fetch_def)
    next
      case (Response body)
      then have "upload_while e n (w\<lparr>ticks := Suc (ticks w), sent := sent w @ [upload_testUrl]\<rparr>)
          (add64 tb (real n)) = Some y"
        using 1(2) True by (simp add: now_def fetch_def)
      then have "0 \<le> add64 tb (real n) \<longrightarrow> 0 \<le> fst y" by (rule 1(1))
      then show ?thesis by (simp add: add64_nonneg)
    qed
  next
    case False
    then show ?thesis using 1(2) by (auto simp: now_def)
  qed
qed

text \<open>
  The conversion to Mbps: what both samplers return, and how far the rounded value can be
  from the exact one.
\<close>

lemma testDownloadSpeed_Mbps:
  "testDownloadSpeed t w =
     map_option
       (\<lambda>(totalBytes, w2).
          (Mbps totalBytes (elapsed_seconds (clock w (ticks w)) (clock w2 (ticks w2))),
           w2\<lparr>ticks := Suc (ticks w2)\<rparr>))
       (download_while (deadline (clock w (ticks w)) (option_value t ''downloadTestDuration''))
          (isBrowser t) (w\<lparr>ticks := Suc (ticks w)\<rparr>) 0)"
  by (simp add: testDownloadSpeed_def now_def deadline_def Mbps_def round_2dp_def
      elapsed_seconds_def mul64_1024 split: option.splits)

lemma testUploadSpeed_Mbps:
  "testUploadSpeed t w =
     (case Uint8Array_length (option_value t ''testFileSize'') of
        Inl e \<Rightarrow> Some (Inl e, w)
      | Inr data_length \<Rightarrow>
          map_option
            (\<lambda>(totalBytes, w2).
               (Inr (Mbps totalBytes (elapsed_seconds (clock w (ticks w)) (clock w2 (ticks w2)))),
                w2\<lparr>ticks := Suc (ticks w2)\<rparr>))
            (upload_while (deadline (clock w (ticks w)) (option_value t ''uploadTestDuration''))
               data_length (w\<lparr>ticks := Suc (ticks w)\<rparr>) 0))"
  by (simp add: testUploadSpeed_def now_def deadline_def Mbps_def round_2dp_def
      elapsed_seconds_def mul64_1024 split: option.splits sum.splits)

lemma Mbps_value:
  assumes "s \<noteq> 0"
  shows "Mbps b s = Num (binary64 (of_int \<lfloor>hundredfold64 b s + 1 / 2\<rfloor> / 100))"
  using assms by (simp add: Mbps_def round_2dp_def hundredfold64_def mul64_def div64_def)

lemma hundredfold64_bounds:
  assumes "0 \<le> b" "0 < s"
  shows "0 \<le> hundredfold64 b s"
    and "(1 - unit_roundoff) ^ 4 * (exact_Mbps b s * 100) \<le> hundredfold64 b s"
    and "hundredfold64 b s \<le> (1 + unit_roundoff) ^ 4 * (exact_Mbps b s * 100)"
proof -
  let ?u = unit_roundoff
  let ?q = "div64 b s"
  let ?q8 = "mul64 ?q 8"
  let ?m = "div64 ?q8 1048576"
  have c: "(0::real) \<le> 8" "(0::real) \<le> 1048576" "(0::real) \<le> 100" by simp_all
  have four: "Suc (Suc (Suc (Suc 0))) = 4" by simp
  have p0: "0 \<le> b / s" using assms by simp
  have l0: "(1 - ?u) ^ 0 * (b / s) \<le> b / s" and h0: "b / s \<le> (1 + ?u) ^ 0 * (b / s)"
    by simp_all
  have n1: "0 \<le> ?q" unfolding div64_def by (rule binary64_nonneg [OF p0])
  have l1: "(1 - ?u) ^ Suc 0 * (b / s) \<le> ?q"
    unfolding div64_def by (rule rounded_lower [OF p0 l0])
  have h1: "?q \<le> (1 + ?u) ^ Suc 0 * (b / s)"
    unfolding div64_def by (rule rounded_upper [OF p0 h0])
  have p1: "0 \<le> ?q * 8" using n1 by simp
  have n2: "0 \<le> ?q8" unfolding mul64_def [of ?q] by (rule binary64_nonneg [OF p1])
  have l2: "(1 - ?u) ^ Suc (Suc 0) * (b / s * 8) \<le> ?q8"
    unfolding mul64_def [of ?q] by (rule rounded_lower [OF p1 times_bound_lower [OF c(1) l1]])
  have h2: "?q8 \<le> (1 + ?u) ^ Suc (Suc 0) * (b / s * 8)"
    unfolding mul64_def [of ?q] by (rule rounded_upper [OF p1 times_bound_upper [OF c(1) h1]])
  have p2: "0 \<le> ?q8 / 1048576" using n2 by simp
  have n3: "0 \<le> ?m" unfolding div64_def [of ?q8] by (rule binary64_nonneg [OF p2])
  have l3: "(1 - ?u) ^ Suc (Suc (Suc 0)) * (b / s * 8 / 1048576) \<le> ?m"
    unfolding div64_def [of ?q8] by (rule rounded_lower [OF p2 divide_bound_lower [OF c(2) l2]])
  have h3: "?m \<le> (1 + ?u) ^ Suc (Suc (Suc 0)) * (b / s * 8 / 1048576)"
    unfolding div64_def [of ?q8] by (rule rounded_upper [OF p2 divide_bound_upper [OF c(2) h2]])
  have p3: "0 \<le> ?m * 100" using n3 by simp
  show "0 \<le> hundredfold64 b s"
    unfolding hundredfold64_def mul64_def [of ?m] by (rule binary64_nonneg [OF p3])
  show "(1 - ?u) ^ 4 * (exact_Mbps b s * 100) \<le> hundredfold64 b s"
    unfolding hundredfold64_def mul64_def [of ?m] exact_Mbps_def four [symmetric]
    by (rule rounded_lower [OF p3 times_bound_lower [OF c(3) l3]])
  show "hundredfold64 b s \<le> (1 + ?u) ^ 4 * (exact_Mbps b s * 100)"
    unfolding hundredfold64_def mul64_def [of ?m] exact_Mbps_def four [symmetric]
    by (rule rounded_upper [OF p3 times_bound_upper [OF c(3) h3]])
qed

lemma Mbps_within_rounding:
  assumes "0 \<le> b" "0 < s"
  shows "\<exists>k. Mbps b s = Num (binary64 (of_int k / 100)) \<and>
           (1 - unit_roundoff) ^ 4 * (exact_Mbps b s * 100) - 1 / 2 \<le> of_int k \<and>
           of_int k \<le> (1 + unit_roundoff) ^ 4 * (exact_Mbps b s * 100) + 1 / 2 \<and>
           (1 - unit_roundoff) * ((1 - unit_roundoff) ^ 4 * exact_Mbps b s - 1 / 200) \<le>
             binary64 (of_int k / 100) \<and>
           binary64 (of_int k / 100) \<le>
             (1 + unit_roundoff) * ((1 + unit_roundoff) ^ 4 * exact_Mbps b s + 1 / 200)"
proof -
  let ?u = unit_roundoff
  let ?y = "hundredfold64 b s"
  let ?k = "\<lfloor>?y + 1 / 2\<rfloor>"
  let ?E = "exact_Mbps b s"
  note y = hundredfold64_bounds [OF assms]
  have near: "?y - 1 / 2 \<le> of_int ?k" "of_int ?k \<le> ?y + 1 / 2" by linarith+
  have k0: "0 \<le> (of_int ?k :: real)" using y(1) by simp
  have lo: "(1 - ?u) ^ 4 * (?E * 100) - 1 / 2 \<le> of_int ?k" using near(1) y(2) by linarith
  have hi: "of_int ?k \<le> (1 + ?u) ^ 4 * (?E * 100) + 1 / 2" using near(2) y(3) by linarith
  have c0: "0 \<le> (of_int ?k :: real) / 100" using k0 by simp
  have "(1 - ?u) * ((1 - ?u) ^ 4 * ?E - 1 / 200) \<le> (1 - ?u) * (of_int ?k / 100)"
    using lo unit_roundoff_pos by (intro mult_left_mono) auto
  also have "\<dots> \<le> binary64 (of_int ?k / 100)" by (rule binary64_lower [OF c0])
  finally have rlo: "(1 - ?u) * ((1 - ?u) ^ 4 * ?E - 1 / 200) \<le> binary64 (of_int ?k / 100)" .
  have "binary64 (of_int ?k / 100) \<le> (1 + ?u) * (of_int ?k / 100)" by (rule binary64_upper [OF c0])
  also have "\<dots> \<le> (1 + ?u) * ((1 + ?u) ^ 4 * ?E + 1 / 200)"
    using hi unit_roundoff_pos by (intro mult_left_mono) auto
  finally have rhi: "binary64 (of_int ?k / 100) \<le> (1 + ?u) * ((1 + ?u) ^ 4 * ?E + 1 / 200)" .
  have "Mbps b s = Num (binary64 (of_int ?k / 100))"
    using assms(2) by (simp add: Mbps_value)
  then show ?thesis using lo hi rlo rhi by blast
qed

lemma Mbps_away_from_tie:
  assumes "0 \<le> b" "0 < s"
    and "of_int j - 1 / 2 < (1 - unit_roundoff) ^ 4 * (exact_Mbps b s * 100)"
    and "(1 + unit_roundoff) ^ 4 * (exact_Mbps b s * 100) < of_int j + 1 / 2"
  shows "Mbps b s = Num (binary64 (of_int j / 100))" "exact_round_2dp (exact_Mbps b s) = of_int j / 100"
proof -
  let ?u = unit_roundoff
  let ?X = "exact_Mbps b s * 100"
  obtain k where k: "Mbps b s = Num (binary64 (of_int k / 100))"
    "(1 - ?u) ^ 4 * ?X - 1 / 2 \<le> of_int k" "of_int k \<le> (1 + ?u) ^ 4 * ?X + 1 / 2"
    using Mbps_within_rounding [OF assms(1,2)] by blast
  have "real_of_int j - 1 < of_int k" "real_of_int k < of_int j + 1"
    using k(2,3) assms(3,4) by linarith+
  then have "j - 1 < k" "k < j + 1" by linarith+
  then have "k = j" by simp
  then show "Mbps b s = Num (binary64 (of_int j / 100))" using k(1) by simp
  have X: "0 \<le> ?X" using assms(1,2) by (simp add: exact_Mbps_def)
  have "(1 - ?u) ^ 4 \<le> 1" using unit_roundoff_pos by (intro power_le_one) auto
  then have a: "(1 - ?u) ^ 4 * ?X \<le> ?X" using X by (simp add: mult_left_le_one_le mult.commute)
  have "1 \<le> (1 + ?u) ^ 4" using unit_roundoff_pos by simp
  then have b: "?X \<le> (1 + ?u) ^ 4 * ?X" using X by (simp add: mult_le_cancel_right1)
  have "of_int j \<le> ?X + 1 / 2" "?X + 1 / 2 < of_int j + 1"
    using a b assms(3,4) by linarith+
  then have "\<lfloor>?X + 1 / 2\<rfloor> = j" by linarith
  then show "exact_round_2dp (exact_Mbps b s) = of_int j / 100"
    by (simp add: exact_round_2dp_def)
qed

lemma Mbps_example: "Mbps 12500000 2 = Num (binary64 (4768 / 100))"
proof -
  have b1: "binary64 (390625 / 8192) = 390625 / 8192"
    using binary64_exact [of 390625 "-13"] by (simp add: power_int_minus)
  have b2: "binary64 (9765625 / 2048) = 9765625 / 2048"
    using binary64_exact [of 9765625 "-11"] by (simp add: power_int_minus)
  show ?thesis by (simp add: Mbps_def round_2dp_def mul64_def b1 b2)
qed

lemma tie_download_loop:
  "download_while (Num 5000) False (tie_download\<lparr>ticks := Suc 0\<rparr>) 0 =
     Some (376832, tie_download\<lparr>ticks := 5, sent := [''https://speed.cloudflare.com/__down?bytes=10000000'']\<rparr>)"
  apply (subst download_while.simps)
  apply (simp add: now_def tie_download_def download_testUrls_def fetch_def js_ge_def add64_def)
  apply (subst download_while.simps)
  apply (simp add: now_def)
  done

lemma Mbps_tie: "Mbps 376832 5 = Num (binary64 (57 / 100))"
proof -
  have q: "binary64 (376832 / 5) = 2589569785738035 / 2 ^ 35"
    by (subst binary64_eval [where e = 16]) (simp_all add: round_half_even_def power_int_minus)
  have q8: "binary64 (2589569785738035 / 2 ^ 35 * 8) = 2589569785738035 / 2 ^ 32"
    using binary64_exact [of 2589569785738035 "-32"] by (simp add: power_int_minus)
  have m: "binary64 (2589569785738035 / 2 ^ 32 / 1048576) = 2589569785738035 / 2 ^ 52"
    using binary64_exact [of 2589569785738035 "-52"] by (simp add: power_int_minus)
  have y: "binary64 (2589569785738035 / 2 ^ 52 * 100) = 8092405580431359 / 2 ^ 47"
    by (subst binary64_eval [where e = 5]) (simp_all add: round_half_even_def power_int_minus)
  have k: "\<lfloor>8092405580431359 / 2 ^ 47 + 1 / 2 :: real\<rfloor> = 57"
    by (simp add: floor_eq_iff)
  have "hundredfold64 376832 5 = 8092405580431359 / 2 ^ 47"
    unfolding hundredfold64_def div64_def mul64_def q q8 m by (rule y)
  then show ?thesis using Mbps_value [of 5 376832] by (simp only: k) simp
qed

lemma binary64_57: "binary64 (57 / 100) = 5134103575202365 / 2 ^ 53"
  by (subst binary64_eval [where e = "-1"]) (simp_all add: round_half_even_def power_int_minus)

lemma binary64_58: "binary64 (58 / 100) = 5224175567749775 / 2 ^ 53"
  by (subst binary64_eval [where e = "-1"]) (simp_all add: round_half_even_def power_int_minus)

section \<open>The options\<close>

lemma latency_loop_cong:
  assumes "options t ''latencyTestCount'' = options t' ''latencyTestCount''"
    "isBrowser t = isBrowser t'"
  shows "latency_loop t i acc w = latency_loop t' i acc w"
proof (induction "probes t - i" arbitrary: i acc w)
  case 0
  have "probes t' = probes t" using assms by (simp add: probes_def)
  then show ?case using 0
    by (subst (1 2) latency_loop.simps) (simp add: loop_condition)
next
  case (Suc k)
  have p: "probes t' = probes t" using assms by (simp add: probes_def)
  have k: "k = probes t - Suc i" using Suc.hyps(2) by simp
  show ?case
    apply (subst (1 2) latency_loop.simps)
    apply (simp add: loop_condition p assms(2) request_eq now_def Let_def Suc.hyps(1) [OF k]
        split: response.splits prod.splits)
    done
qed

lemma constructor_option:
  "options (constructor opts b) key =
     (case opts key of Some v \<Rightarrow> Some v | None \<Rightarrow> DEFAULT_OPTIONS key)"
  by (simp add: constructor_def map_add_def)


section \<open>Properties of analyzeQuality\<close>

text \<open>
  C1. \<open>analyzeQuality\<close> is a total function of the measurement. On every triple of finite
  download, upload and latency values (the nonnegative ones among them) it assigns the
  first tier, in the order excellent, good, fair, poor, whose condition holds, and
  very-poor when none holds; the poor tier does not look at the latency; the
  recommendation is the fixed string of the tier.
\<close>

theorem analyzeQuality_first_matching_tier:
  "analyzeQuality
     \<lparr>SpeedTestResult.downloadSpeed = Num d, uploadSpeed = Num u, latency = Num l,
      jitter = j, timestamp = t\<rparr> =
   \<lparr>quality = classify d u l, downloadSpeed = Num d, uploadSpeed = Num u, latency = Num l,
    recommendation = recommendation_of (classify d u l)\<rparr>"
  by (simp add: analyzeQuality_def QUALITY_THRESHOLDS_def js_ge_def classify_def tier_rules_def)

theorem analyzeQuality_first_matching_tier_examples:
  "quality (analyzeQuality
     \<lparr>SpeedTestResult.downloadSpeed = Num 50, uploadSpeed = Num 10, latency = Num 30,
      jitter = Num 0, timestamp = Num 0\<rparr>) = excellent \<and>
   quality (analyzeQuality
     \<lparr>SpeedTestResult.downloadSpeed = Num (499 / 10), uploadSpeed = Num 10, latency = Num 30,
      jitter = Num 0, timestamp = Num 0\<rparr>) = good \<and>
   quality (analyzeQuality
     \<lparr>SpeedTestResult.downloadSpeed = Num 7, uploadSpeed = Num 1, latency = Num 5000,
      jitter = Num 0, timestamp = Num 0\<rparr>) = poor \<and>
   quality (analyzeQuality
     \<lparr>SpeedTestResult.downloadSpeed = Num 100, uploadSpeed = Num (1 / 2), latency = Num 1,
      jitter = Num 0, timestamp = Num 0\<rparr>) = very_poor"
  using analyzeQuality_first_matching_tier [of 50 10 30 "Num 0" "Num 0"]
    analyzeQuality_first_matching_tier [of "499 / 10" 10 30 "Num 0" "Num 0"]
    analyzeQuality_first_matching_tier [of 7 1 5000 "Num 0" "Num 0"]
    analyzeQuality_first_matching_tier [of 100 "1 / 2" 1 "Num 0" "Num 0"]
  by (simp add: classify_def tier_rules_def)

text \<open>
  C10. The assessment carries the measurement's download speed, upload speed and latency
  through unchanged, and nothing in it depends on the measurement's jitter or timestamp.
\<close>

theorem analyzeQuality_frame:
  "NetworkQuality.downloadSpeed (analyzeQuality r) = SpeedTestResult.downloadSpeed r \<and>
   NetworkQuality.uploadSpeed (analyzeQuality r) = SpeedTestResult.uploadSpeed r \<and>
   NetworkQuality.latency (analyzeQuality r) = SpeedTestResult.latency r \<and>
   analyzeQuality (r\<lparr>jitter := j, timestamp := t\<rparr>) = analyzeQuality r"
  by (simp add: analyzeQuality_def split: prod.splits)

section \<open>Properties of testLatency\<close>




text \<open>
  C3. The samples that the probe loop collects are those of the probes that succeeded, in
  order, one for each. \<open>testLatency\<close> throws if and only if every one of its probes has
  failed, that is when it has collected no sample; as soon as one probe succeeds it
  returns the statistics of the samples of the successful probes alone. With five probes
  of which three fail, it returns the statistics of the two samples.
\<close>

theorem testLatency_raises_iff_no_sample:
  "fst (latency_loop t 0 [] w) = successful_samples t w \<and>
   length (successful_samples t w) = card {i. i < probes t \<and> probe_ok w i} \<and>
   isl (fst (testLatency t w)) = (\<forall>i<probes t. \<not> probe_ok w i) \<and>
   fst (testLatency t w) =
     (if \<forall>i<probes t. \<not> probe_ok w i then Inl (Error ''All latency tests failed'')
      else Inr \<lparr>avg = mean64 (successful_samples t w),
                jitter = mean_abs_deviation64 (successful_samples t w),
                minimum = Min (set (successful_samples t w)),
                maximum = Max (set (successful_samples t w))\<rparr>) \<and>
   length (sent (snd (testLatency t w))) = length (sent w) + probes t"
proof -
  let ?xs = "successful_samples t w"
  obtain w' where loop: "latency_loop t 0 [] w = (?xs, w')"
    using latency_loop_samples [of t w] by (cases "latency_loop t 0 [] w") simp
  have sent: "length (sent w') = length (sent w) + probes t"
    using latency_loop_samples [of t w] by (simp add: loop)
  have "{i. i < probes t \<and> probe_ok w ([0..<probes t] ! i)} = {i. i < probes t \<and> probe_ok w i}"
    by auto
  then have len: "length ?xs = card {i. i < probes t \<and> probe_ok w i}"
    by (simp add: successful_samples_def length_filter_conv_card)
  have empty: "(?xs = []) = (\<forall>i<probes t. \<not> probe_ok w i)"
    by (auto simp: successful_samples_def filter_empty_conv)
  have res: "fst (testLatency t w) = latency_statistics ?xs"
    by (simp add: testLatency_def loop)
  show ?thesis
  proof (cases "?xs = []")
    case True
    then have "latency_statistics ?xs = Inl (Error ''All latency tests failed'')"
      by (simp add: latency_statistics_def)
    then show ?thesis using True empty len sent loop res by (simp add: testLatency_def)
  next
    case False
    then show ?thesis using latency_statistics_nonempty [OF False] empty len sent loop res
      by (simp add: testLatency_def)
  qed
qed

theorem testLatency_two_of_five:
  "fst (testLatency (constructor Map.empty False) two_of_five) =
     Inr \<lparr>avg = 60, jitter = 30, minimum = 30, maximum = 90\<rparr> \<and>
   card {i. i < probes (constructor Map.empty False) \<and> probe_ok two_of_five i} = 2"
proof -
  have ok: "probe_ok two_of_five i = (i = 1 \<or> i = 3)" for i
    by (simp add: probe_ok_def two_of_five_def)
  have upt: "[0..<1] = [0]" "[0..<3] = [0, 1, 2]"
    by (simp_all add: upt_rec)
  have start: "probe_start two_of_five (Suc 0) = 1" "probe_start two_of_five 3 = 4"
    by (simp_all add: probe_start_def upt ok) (simp_all add: two_of_five_def)
  have sample: "probe_sample two_of_five (Suc 0) = 30" "probe_sample two_of_five 3 = 90"
    by (simp_all add: probe_sample_def start) (simp_all add: two_of_five_def sub64_def)
  have samples: "successful_samples (constructor Map.empty False) two_of_five = [30, 90]"
    by (simp add: successful_samples_def probes_default upt5 ok sample)
  note main = testLatency_raises_iff_no_sample [of "constructor Map.empty False" two_of_five]
  have "probe_ok two_of_five 1 \<and> (1::nat) < probes (constructor Map.empty False)"
    by (simp add: ok probes_default)
  then have some: "\<not> (\<forall>i<probes (constructor Map.empty False). \<not> probe_ok two_of_five i)"
    by blast
  have "fst (testLatency (constructor Map.empty False) two_of_five) =
      Inr \<lparr>avg = mean64 [30, 90], jitter = mean_abs_deviation64 [30, 90],
           minimum = Min (set [30, 90]), maximum = Max (set [30, 90])\<rparr>"
    using main [THEN conjunct2, THEN conjunct2, THEN conjunct2, THEN conjunct1] some
    by (simp only: samples if_False)
  then have stats: "fst (testLatency (constructor Map.empty False) two_of_five) =
      Inr \<lparr>avg = 60, jitter = 30, minimum = 30, maximum = 90\<rparr>"
    by (simp add: mean64_def mean_abs_deviation64_def sum64_def add64_def sub64_def div64_def)
  have "card {i. i < probes (constructor Map.empty False) \<and> probe_ok two_of_five i} = 2"
    using main [THEN conjunct2, THEN conjunct1] by (simp add: samples)
  then show ?thesis using stats by simp
qed

text \<open>
  C8, as the code has it. For every list of collected samples that is not empty, the
  statistics satisfy \<open>min \<le> max\<close> and \<open>jitter \<ge> 0\<close>, and the exact arithmetic mean of the
  samples lies between \<open>min\<close> and \<open>max\<close>. The returned \<open>avg\<close> is that mean as the doubles
  compute it; when no sample is negative, it lies between \<open>min\<close> and \<open>max\<close> up to the
  relative error of \<open>n + 1\<close> roundings, \<open>n\<close> being the number of samples:
  \<open>(1 - u)^(n+1) * min \<le> avg \<le> (1 + u)^(n+1) * max\<close> with \<open>u = 2^-53\<close>.
\<close>

theorem testLatency_bounds:
  assumes "fst (latency_loop t 0 [] w) = xs" "xs \<noteq> []"
  shows "\<exists>s. fst (testLatency t w) = Inr s \<and> minimum s \<le> maximum s \<and>
           0 \<le> LatencyStats.jitter s \<and>
           minimum s \<le> sum_list xs / real (length xs) \<and>
           sum_list xs / real (length xs) \<le> maximum s \<and>
           ((\<forall>x\<in>set xs. 0 \<le> x) \<longrightarrow>
              (1 - unit_roundoff) ^ Suc (length xs) * minimum s \<le> avg s \<and>
              avg s \<le> (1 + unit_roundoff) ^ Suc (length xs) * maximum s)"
proof -
  let ?m = "sum_list xs / real (length xs)"
  have "fst (testLatency t w) = latency_statistics xs"
    using assms(1) by (cases "latency_loop t 0 [] w") (simp add: testLatency_def)
  then have res: "fst (testLatency t w) =
      Inr \<lparr>avg = mean64 xs, jitter = mean_abs_deviation64 xs,
           minimum = Min (set xs), maximum = Max (set xs)\<rparr>"
    using latency_statistics_nonempty [OF assms(2)] by simp
  have order: "Min (set xs) \<le> Max (set xs)" using assms(2) by simp
  have mean: "Min (set xs) \<le> ?m" "?m \<le> Max (set xs)"
    by (rule exact_mean_bounds [OF assms(2)])+
  have near: "(1 - unit_roundoff) ^ Suc (length xs) * Min (set xs) \<le> mean64 xs \<and>
      mean64 xs \<le> (1 + unit_roundoff) ^ Suc (length xs) * Max (set xs)"
    if nonneg: "\<forall>x\<in>set xs. 0 \<le> x"
  proof
    have u: "0 \<le> (1 - unit_roundoff) ^ Suc (length xs)" "0 \<le> (1 + unit_roundoff) ^ Suc (length xs)"
      by (simp_all add: unit_roundoff_def)
    have "(1 - unit_roundoff) ^ Suc (length xs) * Min (set xs) \<le>
        (1 - unit_roundoff) ^ Suc (length xs) * ?m"
      using mean(1) u(1) by (rule mult_left_mono)
    also have "\<dots> \<le> mean64 xs" by (rule mean64_bounds(1) [OF assms(2) nonneg])
    finally show "(1 - unit_roundoff) ^ Suc (length xs) * Min (set xs) \<le> mean64 xs" .
    have "mean64 xs \<le> (1 + unit_roundoff) ^ Suc (length xs) * ?m"
      by (rule mean64_bounds(2) [OF assms(2) nonneg])
    also have "\<dots> \<le> (1 + unit_roundoff) ^ Suc (length xs) * Max (set xs)"
      using mean(2) u(2) by (rule mult_left_mono)
    finally show "mean64 xs \<le> (1 + unit_roundoff) ^ Suc (length xs) * Max (set xs)" .
  qed
  show ?thesis
    using res order mean near mean_abs_deviation64_nonneg [of xs] by simp
qed

theorem testLatency_bounds_example:
  "\<exists>s. fst (testLatency (constructor Map.empty True) five_probes) = Inr s \<and>
        minimum s \<le> maximum s \<and> 0 \<le> LatencyStats.jitter s \<and>
        minimum s \<le> (100 + 120 + 110 + 90 + 130) / 5 \<and>
        (100 + 120 + 110 + 90 + 130) / 5 \<le> maximum s \<and>
        (1 - unit_roundoff) ^ 6 * minimum s \<le> avg s \<and>
        avg s \<le> (1 + unit_roundoff) ^ 6 * maximum s"
proof -
  have n: "Suc (length [100, 120, 110, 90, 130 :: real]) = 6" by simp
  show ?thesis
    using testLatency_bounds [OF five_probes_samples] unfolding n by simp
qed

text \<open>
  C8 as stated fails: \<open>min \<le> avg \<le> max\<close> does not hold for three samples of 0.1 ms. The
  sum \<open>0.1 + 0.1 + 0.1\<close> is rounded to 0.30000000000000004, and its third to
  0.10000000000000002, which is above the maximum 0.1.
\<close>

theorem testLatency_avg_above_max:
  "fst (testLatency (constructor [''latencyTestCount'' \<mapsto> 3] True) three_tenths) =
     Inr \<lparr>avg = 7205759403792795 / 2 ^ 56, jitter = 1 / 2 ^ 56,
          minimum = tenth, maximum = tenth\<rparr> \<and>
   tenth < 7205759403792795 / 2 ^ 56"
  using three_tenths_statistics by (simp add: tenth_def)

section \<open>Properties of the throughput samplers\<close>

text \<open>
  C5, as the code has it. Both samplers return \<open>Mbps totalBytes elapsedSeconds\<close>, where
  \<open>totalBytes\<close> is what their loop has accumulated, which is never negative, and
  \<open>elapsedSeconds\<close> the time between the first reading of the clock and the reading after
  the loop. \<open>Mbps\<close> computes the formula \<open>(totalBytes / elapsedSeconds) * 8 / 1048576\<close> and
  the rounding to two decimal places in doubles, every operation rounded. For a positive
  elapsed time the result is the double of \<open>k / 100\<close> for an integer \<open>k\<close> that is within
  one half of a hundred times the exact value of the formula, up to the relative error of
  four roundings (a factor between \<open>(1 - u)^4\<close> and \<open>(1 + u)^4\<close>, \<open>u = 2^-53\<close>); so the
  result is within 0.005 of the exact value up to five roundings. When a hundred times the exact value is farther than
  that error from every half-integer, the result is the double of the exact value rounded to
  two decimal places. 12,500,000 bytes over 2.0 seconds give 47.68 (the double that the
  decimal 47.68 denotes).
\<close>

theorem throughput_within_rounding:
  "testDownloadSpeed t w =
     map_option
       (\<lambda>(totalBytes, w2).
          (Mbps totalBytes (elapsed_seconds (clock w (ticks w)) (clock w2 (ticks w2))),
           w2\<lparr>ticks := Suc (ticks w2)\<rparr>))
       (download_while (deadline (clock w (ticks w)) (option_value t ''downloadTestDuration''))
          (isBrowser t) (w\<lparr>ticks := Suc (ticks w)\<rparr>) 0) \<and>
   testUploadSpeed t w =
     (case Uint8Array_length (option_value t ''testFileSize'') of
        Inl e \<Rightarrow> Some (Inl e, w)
      | Inr data_length \<Rightarrow>
          map_option
            (\<lambda>(totalBytes, w2).
               (Inr (Mbps totalBytes (elapsed_seconds (clock w (ticks w)) (clock w2 (ticks w2)))),
                w2\<lparr>ticks := Suc (ticks w2)\<rparr>))
            (upload_while (deadline (clock w (ticks w)) (option_value t ''uploadTestDuration''))
               data_length (w\<lparr>ticks := Suc (ticks w)\<rparr>) 0)) \<and>
   (download_while endTime browser w1 0 = Some (downloaded, w2) \<longrightarrow> 0 \<le> downloaded) \<and>
   (upload_while endTime data_length w1 0 = Some (uploaded, w3) \<longrightarrow> 0 \<le> uploaded) \<and>
   (0 \<le> totalBytes \<and> 0 < elapsedSeconds \<longrightarrow>
      (\<exists>k. Mbps totalBytes elapsedSeconds = Num (binary64 (of_int k / 100)) \<and>
            (1 - unit_roundoff) ^ 4 * (exact_Mbps totalBytes elapsedSeconds * 100) - 1 / 2 \<le> of_int k \<and>
            of_int k \<le> (1 + unit_roundoff) ^ 4 * (exact_Mbps totalBytes elapsedSeconds * 100) + 1 / 2 \<and>
            (1 - unit_roundoff) * ((1 - unit_roundoff) ^ 4 * exact_Mbps totalBytes elapsedSeconds - 1 / 200) \<le>
              binary64 (of_int k / 100) \<and>
            binary64 (of_int k / 100) \<le>
              (1 + unit_roundoff) * ((1 + unit_roundoff) ^ 4 * exact_Mbps totalBytes elapsedSeconds + 1 / 200)) \<and>
      (of_int j - 1 / 2 < (1 - unit_roundoff) ^ 4 * (exact_Mbps totalBytes elapsedSeconds * 100) \<and>
       (1 + unit_roundoff) ^ 4 * (exact_Mbps totalBytes elapsedSeconds * 100) < of_int j + 1 / 2 \<longrightarrow>
         exact_round_2dp (exact_Mbps totalBytes elapsedSeconds) = of_int j / 100 \<and>
         Mbps totalBytes elapsedSeconds =
           Num (binary64 (exact_round_2dp (exact_Mbps totalBytes elapsedSeconds))))) \<and>
   Mbps 12500000 2 = Num (binary64 (4768 / 100))"
proof -
  have d: "download_while endTime browser w1 0 = Some (downloaded, w2) \<longrightarrow> 0 \<le> downloaded"
    using download_while_nonneg [of endTime browser w1 0 "(downloaded, w2)"] by simp
  have u: "upload_while endTime data_length w1 0 = Some (uploaded, w3) \<longrightarrow> 0 \<le> uploaded"
    using upload_while_nonneg [of endTime data_length w1 0 "(uploaded, w3)"] by simp
  have r: "0 \<le> totalBytes \<and> 0 < elapsedSeconds \<longrightarrow>
      (\<exists>k. Mbps totalBytes elapsedSeconds = Num (binary64 (of_int k / 100)) \<and>
            (1 - unit_roundoff) ^ 4 * (exact_Mbps totalBytes elapsedSeconds * 100) - 1 / 2 \<le> of_int k \<and>
            of_int k \<le> (1 + unit_roundoff) ^ 4 * (exact_Mbps totalBytes elapsedSeconds * 100) + 1 / 2 \<and>
            (1 - unit_roundoff) * ((1 - unit_roundoff) ^ 4 * exact_Mbps totalBytes elapsedSeconds - 1 / 200) \<le>
              binary64 (of_int k / 100) \<and>
            binary64 (of_int k / 100) \<le>
              (1 + unit_roundoff) * ((1 + unit_roundoff) ^ 4 * exact_Mbps totalBytes elapsedSeconds + 1 / 200))"
    using Mbps_within_rounding [of totalBytes elapsedSeconds] by blast
  have a: "0 \<le> totalBytes \<and> 0 < elapsedSeconds \<longrightarrow>
      (of_int j - 1 / 2 < (1 - unit_roundoff) ^ 4 * (exact_Mbps totalBytes elapsedSeconds * 100) \<and>
       (1 + unit_roundoff) ^ 4 * (exact_Mbps totalBytes elapsedSeconds * 100) < of_int j + 1 / 2 \<longrightarrow>
         exact_round_2dp (exact_Mbps totalBytes elapsedSeconds) = of_int j / 100 \<and>
         Mbps totalBytes elapsedSeconds =
           Num (binary64 (exact_round_2dp (exact_Mbps totalBytes elapsedSeconds))))"
  proof (intro impI, elim conjE)
    assume h: "0 \<le> totalBytes" "0 < elapsedSeconds"
      "of_int j - 1 / 2 < (1 - unit_roundoff) ^ 4 * (exact_Mbps totalBytes elapsedSeconds * 100)"
      "(1 + unit_roundoff) ^ 4 * (exact_Mbps totalBytes elapsedSeconds * 100) < of_int j + 1 / 2"
    note tie = Mbps_away_from_tie [OF h]
    show "exact_round_2dp (exact_Mbps totalBytes elapsedSeconds) = of_int j / 100 \<and>
        Mbps totalBytes elapsedSeconds =
          Num (binary64 (exact_round_2dp (exact_Mbps totalBytes elapsedSeconds)))"
      unfolding tie by simp
  qed
  show ?thesis
    using testDownloadSpeed_Mbps [of t w] testUploadSpeed_Mbps [of t w] d u r a Mbps_example
    by blast
qed

theorem throughput_within_rounding_examples:
  "map_option fst (testDownloadSpeed (constructor [''downloadTestDuration'' \<mapsto> 2] False) one_download) =
     Some (Num (binary64 (4768 / 100))) \<and>
   map_option fst (testUploadSpeed (constructor Map.empty True) two_uploads) =
     Some (Inr (Num (binary64 (78 / 100)))) \<and>
   exact_Mbps 12500000 2 * 100 = 1220703125 / 256000 \<and>
   exact_round_2dp (exact_Mbps 12500000 2) = 4768 / 100 \<and>
   Mbps 12500000 2 = Num (binary64 (exact_round_2dp (exact_Mbps 12500000 2))) \<and>
   (\<exists>k. Mbps 12500000 2 = Num (binary64 (of_int k / 100)) \<and>
         (1 - unit_roundoff) ^ 4 * (1220703125 / 256000) - 1 / 2 \<le> of_int k \<and>
         of_int k \<le> (1 + unit_roundoff) ^ 4 * (1220703125 / 256000) + 1 / 2)"
proof -
  let ?t1 = "constructor [''downloadTestDuration'' \<mapsto> 2] False"
  let ?t2 = "constructor Map.empty True"
  let ?w2 = "one_download\<lparr>ticks := 5, sent := [''https://speed.cloudflare.com/__down?bytes=10000000'']\<rparr>"
  let ?w3 = "two_uploads\<lparr>ticks := 4, sent := [upload_testUrl, upload_testUrl, upload_testUrl]\<rparr>"
  have b3: "binary64 (25 / 32) = 25 / 32"
    using binary64_exact [of 25 "-5"] by (simp add: power_int_minus)
  have b4: "binary64 (625 / 8) = 625 / 8"
    using binary64_exact [of 625 "-3"] by (simp add: power_int_minus)
  have d: "deadline (clock one_download (ticks one_download))
      (option_value ?t1 ''downloadTestDuration'') = Num 2000"
    by (simp add: deadline_def option_value_def constructor_def one_download_def add64_def mul64_def)
  have u: "deadline (clock two_uploads (ticks two_uploads))
      (option_value ?t2 ''uploadTestDuration'') = Num 5000"
    by (simp add: deadline_def option_value_def constructor_def DEFAULT_OPTIONS_def two_uploads_def
        add64_def mul64_def)
  have n: "Uint8Array_length (option_value ?t2 ''testFileSize'') = Inr 102400"
    by (simp add: option_value_def constructor_def DEFAULT_OPTIONS_def)
  have e: "elapsed_seconds 0 2000 = 2"
    by (simp add: elapsed_seconds_def sub64_def div64_def)
  have m2: "Mbps 204800 2 = Num (binary64 (78 / 100))"
    by (simp add: Mbps_def round_2dp_def mul64_def b3 b4)
  have x: "exact_Mbps 12500000 2 * 100 = 1220703125 / 256000"
    by (simp add: exact_Mbps_def)
  have margin: "of_int 4768 - 1 / 2 < (1 - unit_roundoff) ^ 4 * (exact_Mbps 12500000 2 * 100)"
    "(1 + unit_roundoff) ^ 4 * (exact_Mbps 12500000 2 * 100) < of_int 4768 + 1 / 2"
    unfolding x by (simp_all add: unit_roundoff_def power_divide)
  note down = throughput_within_rounding [where t = ?t1 and w = one_download
      and endTime = "Num 2000" and browser = False and ?w1.0 = "one_download\<lparr>ticks := Suc 0\<rparr>"
      and downloaded = 12500000 and ?w2.0 = ?w2 and totalBytes = 12500000
      and elapsedSeconds = 2 and j = 4768]
  note up = throughput_within_rounding [where t = ?t2 and w = two_uploads
      and endTime = "Num 5000" and data_length = 102400 and ?w1.0 = "two_uploads\<lparr>ticks := Suc 0\<rparr>"
      and uploaded = 204800 and ?w3.0 = ?w3 and totalBytes = 204800
      and elapsedSeconds = 2 and j = 78]
  have 1: "map_option fst (testDownloadSpeed ?t1 one_download) = Some (Num (binary64 (4768 / 100)))"
    using down one_download_loop
    by (simp add: d) (simp add: one_download_def constructor_def e)
  have 2: "map_option fst (testUploadSpeed ?t2 two_uploads) = Some (Inr (Num (binary64 (78 / 100))))"
    using up two_uploads_loop m2
    by (simp add: u n) (simp add: two_uploads_def e)
  have pre: "0 \<le> (12500000::real) \<and> 0 < (2::real)" by simp
  note core = down [THEN conjunct2, THEN conjunct2, THEN conjunct2, THEN conjunct2,
      THEN conjunct1, THEN mp, OF pre]
  have "exact_round_2dp (exact_Mbps 12500000 2) = of_int 4768 / 100 \<and>
      Mbps 12500000 2 = Num (binary64 (exact_round_2dp (exact_Mbps 12500000 2)))"
    using core [THEN conjunct2] margin by blast
  then have 3: "exact_round_2dp (exact_Mbps 12500000 2) = 4768 / 100 \<and>
      Mbps 12500000 2 = Num (binary64 (exact_round_2dp (exact_Mbps 12500000 2)))"
    by simp
  have 4: "\<exists>k. Mbps 12500000 2 = Num (binary64 (of_int k / 100)) \<and>
         (1 - unit_roundoff) ^ 4 * (1220703125 / 256000) - 1 / 2 \<le> of_int k \<and>
         of_int k \<le> (1 + unit_roundoff) ^ 4 * (1220703125 / 256000) + 1 / 2"
    using core [THEN conjunct1] unfolding x by blast
  show ?thesis using 1 2 3 4 x by blast
qed

text \<open>
  C5 as stated fails: the result is not always the formula rounded to two decimal places.
  For 376,832 bytes over 5.0 seconds the formula gives 0.575 exactly, which rounds to 0.58.
  The doubles give \<open>376832 / 5 * 8 / 1048576 * 100 = 57.49999999999999\<close>, which
  \<open>Math.round\<close> takes to 57, and \<open>testDownloadSpeed\<close> returns 0.57, farther than 0.005
  from the value of the formula.
\<close>

theorem testDownloadSpeed_tie_rounds_down:
  "map_option fst (testDownloadSpeed (constructor Map.empty False) tie_download) =
     Some (Num (binary64 (57 / 100))) \<and>
   download_while (Num 5000) False (tie_download\<lparr>ticks := Suc 0\<rparr>) 0 =
     Some (376832, tie_download\<lparr>ticks := 5, sent := [''https://speed.cloudflare.com/__down?bytes=10000000'']\<rparr>) \<and>
   elapsed_seconds 0 5000 = 5 \<and>
   exact_Mbps 376832 5 = 575 / 1000 \<and>
   exact_round_2dp (exact_Mbps 376832 5) = 58 / 100 \<and>
   binary64 (57 / 100) < binary64 (58 / 100) \<and>
   1 / 200 < exact_Mbps 376832 5 - binary64 (57 / 100)"
proof -
  have d: "deadline (clock tie_download (ticks tie_download))
      (option_value (constructor Map.empty False) ''downloadTestDuration'') = Num 5000"
    by (simp add: deadline_def option_value_def constructor_def DEFAULT_OPTIONS_def
        tie_download_def add64_def mul64_def)
  have e: "elapsed_seconds 0 5000 = 5"
    by (simp add: elapsed_seconds_def sub64_def div64_def)
  have "Mbps 376832 (elapsed_seconds 0 5000) = Num (binary64 (57 / 100))"
    unfolding e by (rule Mbps_tie)
  then have run: "map_option fst (testDownloadSpeed (constructor Map.empty False) tie_download) =
      Some (Num (binary64 (57 / 100)))"
    using testDownloadSpeed_Mbps [of "constructor Map.empty False" tie_download] tie_download_loop
    by (simp add: d) (simp add: tie_download_def constructor_def)
  have x: "exact_Mbps 376832 5 = 575 / 1000" by (simp add: exact_Mbps_def)
  have r: "exact_round_2dp (575 / 1000) = 58 / 100" by (simp add: exact_round_2dp_def)
  have lt: "binary64 (57 / 100) < binary64 (58 / 100)"
    unfolding binary64_57 binary64_58 by simp
  have far: "1 / 200 < 575 / 1000 - binary64 (57 / 100)"
    unfolding binary64_57 by simp
  show ?thesis using run tie_download_loop e r lt far unfolding x by simp
qed

text \<open>
  C4, where the code departs from it. With every request failing and a clock that still
  shows the millisecond of the start when the first upload request has failed,
  \<open>testUploadSpeed\<close> divides 0 bytes by 0 seconds and returns \<open>NaN\<close>, not 0.
\<close>

theorem testUploadSpeed_coarse_clock:
  "testUploadSpeed (constructor Map.empty True) offline_coarse_clock =
     Some (Inr NaN, offline_coarse_clock\<lparr>ticks := 3, sent := [upload_testUrl]\<rparr>)"
  unfolding testUploadSpeed_def
  apply (simp add: now_def constructor_def option_value_def DEFAULT_OPTIONS_def mul64_def add64_def sub64_def div64_def)
  apply (simp add: offline_coarse_clock_def)
  apply (subst upload_while.simps)
  apply (simp add: offline_coarse_clock_def now_def fetch_def mul64_def add64_def sub64_def div64_def)
  done

section \<open>Properties of the constructor\<close>

text \<open>
  C6. Each of the four recognised options has the caller's value when the caller gives
  one, whatever the other options are, and otherwise its default: 5, 5, 5 and 102400. The
  keys that are not recognised change nothing: the tester built from the options behaves,
  in the three operations that read options, as the tester built from the recognised
  options alone.
\<close>

theorem constructor_merges_over_defaults:
  "options (constructor opts b) ''downloadTestDuration'' =
     Some (case opts ''downloadTestDuration'' of Some v \<Rightarrow> v | None \<Rightarrow> 5) \<and>
   options (constructor opts b) ''uploadTestDuration'' =
     Some (case opts ''uploadTestDuration'' of Some v \<Rightarrow> v | None \<Rightarrow> 5) \<and>
   options (constructor opts b) ''latencyTestCount'' =
     Some (case opts ''latencyTestCount'' of Some v \<Rightarrow> v | None \<Rightarrow> 5) \<and>
   options (constructor opts b) ''testFileSize'' =
     Some (case opts ''testFileSize'' of Some v \<Rightarrow> v | None \<Rightarrow> 102400) \<and>
   testLatency (constructor opts b) = testLatency (constructor (opts |` recognised_options) b) \<and>
   testDownloadSpeed (constructor opts b) =
     testDownloadSpeed (constructor (opts |` recognised_options) b) \<and>
   testUploadSpeed (constructor opts b) =
     testUploadSpeed (constructor (opts |` recognised_options) b)"
proof -
  let ?t = "constructor opts b" and ?t' = "constructor (opts |` recognised_options) b"
  have same: "options ?t key = options ?t' key" if "key \<in> recognised_options" for key
    using that by (simp add: constructor_option)
  have keys: "''downloadTestDuration'' \<in> recognised_options"
    "''uploadTestDuration'' \<in> recognised_options" "''latencyTestCount'' \<in> recognised_options"
    "''testFileSize'' \<in> recognised_options"
    by (simp_all add: recognised_options_def)
  have b: "isBrowser ?t = isBrowser ?t'" by (simp add: constructor_def)
  have ov: "option_value ?t key = option_value ?t' key" if "key \<in> recognised_options" for key
    using same [OF that] by (simp add: option_value_def)
  have lat: "testLatency ?t = testLatency ?t'"
    by (intro ext) (simp add: testLatency_def latency_loop_cong [OF same [OF keys(3)] b])
  have down: "testDownloadSpeed ?t = testDownloadSpeed ?t'"
    by (intro ext) (simp add: testDownloadSpeed_def ov [OF keys(1)] b)
  have up: "testUploadSpeed ?t = testUploadSpeed ?t'"
    by (intro ext) (simp add: testUploadSpeed_def ov [OF keys(2)] ov [OF keys(4)] split: sum.splits)
  show ?thesis
    using lat down up
    by (simp add: constructor_option DEFAULT_OPTIONS_def split: option.splits)
qed

section \<open>Properties of quickCheck\<close>

text \<open>
  C9. \<open>quickCheck\<close> has no exceptional result. It sends one request; when the request
  succeeds it answers online with the time between the two readings of the clock around
  the request, and when the request fails it answers offline with the latency -1.
\<close>

theorem quickCheck_never_throws:
  "fst (quickCheck w) =
     (case net w (length (sent w)) of
        NetworkError \<Rightarrow> \<lparr>isOnline = False, latency = - 1\<rparr>
      | Response body \<Rightarrow>
          \<lparr>isOnline = True, latency = sub64 (clock w (Suc (ticks w))) (clock w (ticks w))\<rparr>) \<and>
   sent (snd (quickCheck w)) = sent w @ [''https://www.google.com/generate_204'']"
  by (simp add: quickCheck_def now_def fetch_def split: response.splits)

section \<open>Properties of normalizeProviderName\<close>



end
